theory Spec2Isabelle
  imports Complex_Main "HOL-Library.Sublist"
begin

section \<open>Decoded JSON values and bound arguments\<close>

text \<open>
  A decoded filter value is a Go \<^verbatim>\<open>interface{}\<close> holding what the JSON decoder
  produces: nil, bool, float64, string, \<^verbatim>\<open>[]interface{}\<close> or
  \<^verbatim>\<open>map[string]interface{}\<close>. A float64 decoded from JSON is finite, so it is a real
  number. A Go map is iterated in an unspecified order: an object is the list of its
  entries in the order in which \<^verbatim>\<open>range\<close> visits them, and every statement below
  holds for every such order.
\<close>

datatype json =
    JNull
  | JBool bool
  | JNum real
  | JStr string
  | JArr "json list"
  | JObj "(string \<times> json) list"

text \<open>A \<^verbatim>\<open>time.Time\<close> is an instant, counted from the zero time.\<close>

datatype time_Time = Instant int

text \<open>What a converter hands to the argument list: the value itself, a Go int or a time.\<close>

datatype arg = AVal json | AInt int | ATime time_Time

section \<open>Operators and configuration (config.go)\<close>

type_synonym Op = string
type_synonym Direction = char

definition ASC :: Direction where "ASC = CHR ''+''"
definition DESC :: Direction where "DESC = CHR ''-''"
definition EQ :: Op where "EQ = ''eq''"
definition NEQ :: Op where "NEQ = ''neq''"
definition LT :: Op where "LT = ''lt''"
definition GT :: Op where "GT = ''gt''"
definition LTE :: Op where "LTE = ''lte''"
definition GTE :: Op where "GTE = ''gte''"
definition LIKE :: Op where "LIKE = ''like''"
definition OR :: Op where "OR = ''or''"
definition AND :: Op where "AND = ''and''"

definition DefaultOpPrefix :: string where "DefaultOpPrefix = ''$''"
definition DefaultFieldSep :: string where "DefaultFieldSep = ''_''"
definition DefaultLimit_const :: int where "DefaultLimit_const = 25"
definition DefaultMaxLimit :: int where "DefaultMaxLimit = 100"

text \<open>The tables \<^verbatim>\<open>sortDirection\<close> and \<^verbatim>\<open>opFormat\<close>; a missing key reads as the empty string.\<close>

definition sortDirection :: "Direction \<Rightarrow> string" where
  "sortDirection d =
     (if d = ASC then ''asc'' else if d = DESC then ''desc'' else '''')"

definition opFormat :: "Op \<Rightarrow> string" where
  "opFormat o' =
     (if o' = EQ then ''=''
      else if o' = NEQ then ''<>''
      else if o' = LT then ''<''
      else if o' = GT then ''>''
      else if o' = LTE then ''<=''
      else if o' = GTE then ''>=''
      else if o' = LIKE then ''LIKE''
      else if o' = OR then ''OR''
      else if o' = AND then ''AND''
      else '''')"

text \<open>The type of a field after indirection, as far as the parser inspects it.\<close>

datatype StructType =
    NullBool | NullString | NullInt64 | NullFloat64 | Time | ConvertibleToTime | OtherStruct

datatype Kind =
    KBool | KString
  | KInt | KInt8 | KInt16 | KInt32 | KInt64
  | KUint | KUint8 | KUint16 | KUint32 | KUint64 | KUintptr
  | KFloat32 | KFloat64
  | KStruct StructType
  | KOther

record FieldMeta =
  Name :: string
  Sortable :: bool
  Filterable :: bool
  FilterOps :: "string \<rightharpoonup> bool"
  Type :: Kind
  Layout :: string

text \<open>
  A validator returns an error message or nil. A converter asserts the dynamic type of
  its input; \<open>None\<close> is the runtime panic of a failed type assertion. The validator
  slot of a field may hold nil.
\<close>

type_synonym Validator = "Op \<Rightarrow> FieldMeta \<Rightarrow> json \<Rightarrow> string option"
type_synonym Converter = "Op \<Rightarrow> FieldMeta \<Rightarrow> json \<Rightarrow> arg option"

record Field =
  meta :: FieldMeta
  ValidateFn :: "Validator option"
  CovertFn :: Converter

text \<open>
  The parser with the configuration it embeds. \<open>GetDBOp\<close> and \<open>GetDBDir\<close> are the
  configured renderings of an operator and of a sort direction; \<open>schema\<close> is the map
  \<^verbatim>\<open>fields\<close>. The file rql.go calls \<^verbatim>\<open>p.GetDBOp(op, meta)\<close> for the text of an operator;
  the configuration as given declares the hook under another name, so the hook is a
  parameter here, and \<open>default_GetDBOp\<close> is the text that the default hook returns for
  an operator, its entry in \<^verbatim>\<open>opFormat\<close>.
\<close>

record Parser =
  OpPrefix :: string
  FieldSep :: string
  DefaultLimit :: int
  LimitMaxValue :: int
  DefaultSort :: "string list"
  GetDBOp :: "Op \<Rightarrow> FieldMeta option \<Rightarrow> string"
  GetDBDir :: "Direction \<Rightarrow> string"
  schema :: "string \<rightharpoonup> Field"

definition default_GetDBOp :: "Op \<Rightarrow> FieldMeta option \<Rightarrow> string" where
  "default_GetDBOp o' m = opFormat o'"

definition default_GetDBDir :: "Direction \<Rightarrow> string" where
  "default_GetDBDir d = sortDirection d"

definition defaultString :: "string \<Rightarrow> string \<Rightarrow> string" where
  "defaultString s v = (if s = [] then v else s)"

definition defaultInt :: "int \<Rightarrow> int \<Rightarrow> int" where
  "defaultInt i v = (if i = 0 then v else i)"

record Query =
  qLimit :: int
  qOffset :: int
  qSelect :: "string list"
  qSort :: "string list"
  qFilter :: "(string \<times> json) list"

record Params =
  Limit :: int
  Offset :: int
  Select :: string
  Sort :: string
  FilterExp :: string
  FilterArgs :: "arg list"

text \<open>
  A \<^verbatim>\<open>ParseError\<close> carries the message \<^verbatim>\<open>fmt.Sprintf(msg, args...)\<close>; it is kept as
  the format string with its arguments.
\<close>

datatype fmtarg = FStr string | FInt int | FErr string

datatype ParseError = ParseError string "fmtarg list"

datatype runtime_error = SliceBoundsOutOfRange | InterfaceConversion | NilDereference

text \<open>What a panic carries: a \<^verbatim>\<open>*ParseError\<close> raised by expect or must, or a runtime error.\<close>

datatype panic = Perr ParseError | Rerr runtime_error

definition expect :: "bool \<Rightarrow> string \<Rightarrow> fmtarg list \<Rightarrow> panic + unit" where
  "expect cond msg args = (if \<not> cond then Inl (Perr (ParseError msg args)) else Inr ())"

definition must :: "string option \<Rightarrow> string \<Rightarrow> fmtarg list \<Rightarrow> panic + unit" where
  "must err msg args =
     (case err of
        Some e \<Rightarrow> Inl (Perr (ParseError (msg @ '': %s'') (args @ [FErr e])))
      | None \<Rightarrow> Inr ())"

section \<open>Column names (rql.go, Column)\<close>

text \<open>
  \<^verbatim>\<open>Column\<close> walks the bytes of the string and classifies \<^verbatim>\<open>rune(s[i])\<close>, a code point
  below 256, with the Latin-1 tables of package unicode. \<^verbatim>\<open>WriteRune\<close> appends the UTF-8
  encoding of the lower-cased code point: one byte below 128, two bytes otherwise.
\<close>

definition isUpper :: "char \<Rightarrow> bool" where
  "isUpper c =
     (let n = (of_char c :: nat)
      in (65 \<le> n \<and> n \<le> 90) \<or> (192 \<le> n \<and> n \<le> 214) \<or> (216 \<le> n \<and> n \<le> 222))"

definition isLower :: "char \<Rightarrow> bool" where
  "isLower c =
     (let n = (of_char c :: nat)
      in (97 \<le> n \<and> n \<le> 122) \<or> n = 181 \<or> (223 \<le> n \<and> n \<le> 246) \<or> (248 \<le> n \<and> n \<le> 255))"

definition isLetter :: "char \<Rightarrow> bool" where
  "isLetter c =
     (let n = (of_char c :: nat) in isUpper c \<or> isLower c \<or> n = 170 \<or> n = 186)"

definition toLower :: "char \<Rightarrow> nat" where
  "toLower c = (if isUpper c then of_char c + 32 else of_char c)"

definition WriteRune :: "nat \<Rightarrow> string" where
  "WriteRune r =
     (if r < 128 then [char_of r]
      else [char_of (192 + r div 64), char_of (128 + r mod 64)])"

text \<open>
  The loop of \<^verbatim>\<open>Column\<close>, with the builder \<open>b\<close> as accumulator. The body runs only for
  \<open>i < length s\<close>, where \<open>length s - 1\<close> is the source's \<^verbatim>\<open>len(s)-1\<close>.
\<close>

function Column_loop :: "string \<Rightarrow> nat \<Rightarrow> string \<Rightarrow> string" where
  "Column_loop s i b =
     (if i < length s then
        (let r = s ! i;
             b1 = (if i > 0 \<and> i < length s - 1 \<and> isUpper r \<and>
                      (isLower (s ! (i - 1)) \<or>
                       isLower (s ! (i + 1)) \<and> isLetter (s ! (i - 1)))
                   then b @ ''_'' else b)
         in Column_loop s (i + 1) (b1 @ WriteRune (toLower r)))
      else b)"
  by pat_completeness auto
termination
  by (relation "measure (\<lambda>(s, i, b). length s - i)") auto

definition Column :: "string \<Rightarrow> string" where
  "Column s = Column_loop s 0 []"

section \<open>Validators and converters (rql.go)\<close>

definition kindString :: "json \<Rightarrow> string" where
  "kindString v =
     (case v of
        JNull \<Rightarrow> ''nil''
      | JBool b \<Rightarrow> ''bool''
      | JNum n \<Rightarrow> ''float64''
      | JStr s \<Rightarrow> ''string''
      | JArr xs \<Rightarrow> ''slice''
      | JObj kvs \<Rightarrow> ''map'')"

definition errorType :: "json \<Rightarrow> string \<Rightarrow> string" where
  "errorType v expected = ''expect <'' @ expected @ ''>, got <'' @ kindString v @ ''>''"

definition validateBool :: Validator where
  "validateBool op f v = (case v of JBool b \<Rightarrow> None | _ \<Rightarrow> Some (errorType v ''bool''))"

definition validateString :: Validator where
  "validateString op f v = (case v of JStr s \<Rightarrow> None | _ \<Rightarrow> Some (errorType v ''string''))"

definition validateFloat :: Validator where
  "validateFloat op f v = (case v of JNum n \<Rightarrow> None | _ \<Rightarrow> Some (errorType v ''float64''))"

text \<open>\<^verbatim>\<open>math.Trunc\<close>: the integer part, rounding toward zero.\<close>

definition Trunc :: "real \<Rightarrow> real" where
  "Trunc n = (if 0 \<le> n then of_int \<lfloor>n\<rfloor> else of_int \<lceil>n\<rceil>)"

definition validateInt :: Validator where
  "validateInt op f v =
     (case v of
        JNum n \<Rightarrow> (if Trunc n \<noteq> n then Some ''not an integer'' else None)
      | _ \<Rightarrow> Some (errorType v ''int''))"

definition validateUInt :: Validator where
  "validateUInt op f v =
     (case validateInt op f v of
        Some err \<Rightarrow> Some err
      | None \<Rightarrow>
          (case v of
             JNum n \<Rightarrow> (if n < 0 then Some ''not an unsigned integer'' else None)
           | _ \<Rightarrow> None))"

text \<open>
  \<^verbatim>\<open>time.Parse\<close> belongs to the standard library; the validator and the converter of a
  time field take it as the parameter \<open>parse\<close>.
\<close>

definition validateTime :: "(string \<Rightarrow> string \<Rightarrow> string + time_Time) \<Rightarrow> string \<Rightarrow> Validator" where
  "validateTime parse layout op f v =
     (case v of
        JStr s \<Rightarrow> (case parse layout s of Inl err \<Rightarrow> Some err | Inr t \<Rightarrow> None)
      | _ \<Rightarrow> Some (errorType v ''string''))"

text \<open>
  \<^verbatim>\<open>int(v.(float64))\<close>, with int of 64 bits. A value that an int holds is truncated toward
  zero. For any other value Go leaves the result to the implementation; it is the least
  int here, as amd64 gives it.
\<close>

definition MinInt :: int where "MinInt = - (2 ^ 63)"
definition MaxInt :: int where "MaxInt = 2 ^ 63 - 1"

definition int_of_float64 :: "real \<Rightarrow> int" where
  "int_of_float64 n =
     (let t = (if 0 \<le> n then \<lfloor>n\<rfloor> else \<lceil>n\<rceil>)
      in if MinInt \<le> t \<and> t \<le> MaxInt then t else MinInt)"

definition convertInt :: Converter where
  "convertInt op f v = (case v of JNum n \<Rightarrow> Some (AInt (int_of_float64 n)) | _ \<Rightarrow> None)"

definition convertTime :: "(string \<Rightarrow> string \<Rightarrow> string + time_Time) \<Rightarrow> string \<Rightarrow> Converter" where
  "convertTime parse layout op f v =
     (case v of
        JStr s \<Rightarrow>
          (case parse layout s of Inl err \<Rightarrow> Some (ATime (Instant 0)) | Inr t \<Rightarrow> Some (ATime t))
      | _ \<Rightarrow> None)"

definition valueFn :: Converter where
  "valueFn op f v = Some (AVal v)"

subsection \<open>Resolution by field type\<close>

definition GetSupportedOps :: "FieldMeta \<Rightarrow> Op list" where
  "GetSupportedOps f =
     (case Type f of
        KBool \<Rightarrow> [EQ, NEQ]
      | KString \<Rightarrow> [EQ, NEQ, LT, LTE, GT, GTE, LIKE]
      | KInt \<Rightarrow> [EQ, NEQ, LT, LTE, GT, GTE]
      | KInt8 \<Rightarrow> [EQ, NEQ, LT, LTE, GT, GTE]
      | KInt16 \<Rightarrow> [EQ, NEQ, LT, LTE, GT, GTE]
      | KInt32 \<Rightarrow> [EQ, NEQ, LT, LTE, GT, GTE]
      | KInt64 \<Rightarrow> [EQ, NEQ, LT, LTE, GT, GTE]
      | KUint \<Rightarrow> [EQ, NEQ, LT, LTE, GT, GTE]
      | KUint8 \<Rightarrow> [EQ, NEQ, LT, LTE, GT, GTE]
      | KUint16 \<Rightarrow> [EQ, NEQ, LT, LTE, GT, GTE]
      | KUint32 \<Rightarrow> [EQ, NEQ, LT, LTE, GT, GTE]
      | KUint64 \<Rightarrow> [EQ, NEQ, LT, LTE, GT, GTE]
      | KUintptr \<Rightarrow> [EQ, NEQ, LT, LTE, GT, GTE]
      | KFloat32 \<Rightarrow> [EQ, NEQ, LT, LTE, GT, GTE]
      | KFloat64 \<Rightarrow> [EQ, NEQ, LT, LTE, GT, GTE]
      | KStruct st \<Rightarrow>
          (case st of
             NullBool \<Rightarrow> [EQ, NEQ]
           | NullString \<Rightarrow> [EQ, NEQ]
           | NullInt64 \<Rightarrow> [EQ, NEQ, LT, LTE, GT, GTE]
           | NullFloat64 \<Rightarrow> [EQ, NEQ, LT, LTE, GT, GTE]
           | Time \<Rightarrow> [EQ, NEQ, LT, LTE, GT, GTE]
           | ConvertibleToTime \<Rightarrow> [EQ, NEQ, LT, LTE, GT, GTE]
           | OtherStruct \<Rightarrow> [])
      | KOther \<Rightarrow> [])"

definition GetConverterFn ::
  "(string \<Rightarrow> string \<Rightarrow> string + time_Time) \<Rightarrow> FieldMeta \<Rightarrow> Converter" where
  "GetConverterFn parse f =
     (let layout = Layout f
      in case Type f of
        KBool \<Rightarrow> valueFn
      | KString \<Rightarrow> valueFn
      | KInt \<Rightarrow> convertInt
      | KInt8 \<Rightarrow> convertInt
      | KInt16 \<Rightarrow> convertInt
      | KInt32 \<Rightarrow> convertInt
      | KInt64 \<Rightarrow> convertInt
      | KUint \<Rightarrow> convertInt
      | KUint8 \<Rightarrow> convertInt
      | KUint16 \<Rightarrow> convertInt
      | KUint32 \<Rightarrow> convertInt
      | KUint64 \<Rightarrow> convertInt
      | KUintptr \<Rightarrow> convertInt
      | KFloat32 \<Rightarrow> valueFn
      | KFloat64 \<Rightarrow> valueFn
      | KStruct st \<Rightarrow>
          (case st of
             NullBool \<Rightarrow> valueFn
           | NullString \<Rightarrow> valueFn
           | NullInt64 \<Rightarrow> convertInt
           | NullFloat64 \<Rightarrow> valueFn
           | Time \<Rightarrow> convertTime parse layout
           | ConvertibleToTime \<Rightarrow> convertTime parse layout
           | OtherStruct \<Rightarrow> valueFn)
      | KOther \<Rightarrow> valueFn)"

text \<open>\<open>None\<close> is the nil validator of a type that has none.\<close>

definition GetValidateFn ::
  "(string \<Rightarrow> string \<Rightarrow> string + time_Time) \<Rightarrow> FieldMeta \<Rightarrow> Validator option" where
  "GetValidateFn parse f =
     (let layout = Layout f
      in case Type f of
        KBool \<Rightarrow> Some validateBool
      | KString \<Rightarrow> Some validateString
      | KInt \<Rightarrow> Some validateInt
      | KInt8 \<Rightarrow> Some validateInt
      | KInt16 \<Rightarrow> Some validateInt
      | KInt32 \<Rightarrow> Some validateInt
      | KInt64 \<Rightarrow> Some validateInt
      | KUint \<Rightarrow> Some validateUInt
      | KUint8 \<Rightarrow> Some validateUInt
      | KUint16 \<Rightarrow> Some validateUInt
      | KUint32 \<Rightarrow> Some validateUInt
      | KUint64 \<Rightarrow> Some validateUInt
      | KUintptr \<Rightarrow> Some validateUInt
      | KFloat32 \<Rightarrow> Some validateFloat
      | KFloat64 \<Rightarrow> Some validateFloat
      | KStruct st \<Rightarrow>
          (case st of
             NullBool \<Rightarrow> Some validateBool
           | NullString \<Rightarrow> Some validateString
           | NullInt64 \<Rightarrow> Some validateInt
           | NullFloat64 \<Rightarrow> Some validateFloat
           | Time \<Rightarrow> Some (validateTime parse layout)
           | ConvertibleToTime \<Rightarrow> Some (validateTime parse layout)
           | OtherStruct \<Rightarrow> None)
      | KOther \<Rightarrow> None)"

section \<open>Building the clauses (rql.go)\<close>

text \<open>\<^verbatim>\<open>strings.Join(elems, sep)\<close>.\<close>

fun Join :: "string list \<Rightarrow> string \<Rightarrow> string" where
  "Join [] sep = []"
| "Join [x] sep = x"
| "Join (x # y # ys) sep = x @ sep @ Join (y # ys) sep"

text \<open>
  \<^verbatim>\<open>strings.Replace(s, old, new, -1)\<close>: every non-overlapping occurrence of \<open>old\<close>, from
  the left. With an empty \<open>old\<close>, Go inserts \<open>new\<close> before every rune and at the end; the
  bytes stand for the runes in that branch, which no parser made by \<^verbatim>\<open>NewParser\<close>
  reaches, since \<^verbatim>\<open>defaults\<close> replaces an empty separator.
\<close>

function Replace :: "string \<Rightarrow> string \<Rightarrow> string \<Rightarrow> string" where
  "Replace s old new =
     (if old = [] then new @ concat (map (\<lambda>c. c # new) s)
      else if s = [] then []
      else if prefix old s then new @ Replace (drop (length old) s) old new
      else hd s # Replace (tl s) old new)"
  by pat_completeness auto
termination
  by (relation "measure (\<lambda>(s, old, new). length s)") auto

definition colName :: "Parser \<Rightarrow> string \<Rightarrow> string" where
  "colName p field =
     (if FieldSep p \<noteq> DefaultFieldSep then Replace field (FieldSep p) DefaultFieldSep
      else field)"

definition op :: "Parser \<Rightarrow> Op \<Rightarrow> string" where
  "op p o' = OpPrefix p @ o'"

text \<open>
  The end of \<^verbatim>\<open>parseField\<close>, once the tag is read into the metadata \<open>m\<close>: the
  operators, the converter and the validator are resolved from the type of the field, with
  the resolvers that \<^verbatim>\<open>defaults\<close> installs. A type without operators is refused; any
  other field enters the schema under its column name.
\<close>

definition parseField ::
  "(string \<Rightarrow> string \<Rightarrow> string + time_Time) \<Rightarrow> Parser \<Rightarrow> string \<Rightarrow> FieldMeta \<Rightarrow>
   (string \<times> fmtarg list) + Parser" where
  "parseField parse p sfName m =
     (let filterOps = GetSupportedOps m
      in if length filterOps = 0
         then Inl (''rql: field type for %q is not supported'', [FStr sfName])
         else
           (let f = \<lparr>meta = m\<lparr>FilterOps := fold (\<lambda>o' ops. ops(op p o' \<mapsto> True)) filterOps (FilterOps m)\<rparr>,
                      ValidateFn = GetValidateFn parse m,
                      CovertFn = GetConverterFn parse m\<rparr>
            in Inr (p\<lparr>schema := (schema p)(Name m \<mapsto> f)\<rparr>)))"

text \<open>
  The loop of \<^verbatim>\<open>init\<close> over the tagged fields, each given by its Go name and the
  metadata read from its tag; the first field that is refused ends the construction. An
  error is the format of its message with the arguments.
\<close>

fun init_loop ::
  "(string \<Rightarrow> string \<Rightarrow> string + time_Time) \<Rightarrow> (string \<times> FieldMeta) list \<Rightarrow> Parser \<Rightarrow>
   (string \<times> fmtarg list) + Parser" where
  "init_loop parse [] p = Inr p"
| "init_loop parse ((sfName, m) # l) p =
     (case parseField parse p sfName m of
        Inl err \<Rightarrow> Inl err
      | Inr p1 \<Rightarrow> init_loop parse l p1)"

definition fmtOp :: "Parser \<Rightarrow> Field \<Rightarrow> Op \<Rightarrow> string" where
  "fmtOp p f o' = colName p (Name (meta f)) @ '' '' @ GetDBOp p o' (Some (meta f)) @ '' ?''"

subsection \<open>The sort clause\<close>

text \<open>The body of the loop of \<^verbatim>\<open>sort\<close> for one entry: the text of its sort parameter.\<close>

definition sort_param :: "Parser \<Rightarrow> string \<Rightarrow> panic + string" where
  "sort_param p field =
     (case expect (field \<noteq> []) ''sort field can not be empty'' [] of
        Inl e \<Rightarrow> Inl e
      | Inr u \<Rightarrow>
          (let f0 = hd field;
               strip = (f0 = ASC \<or> f0 = DESC);
               orderBy = (if strip then GetDBDir p f0 else []);
               field1 = (if strip then tl field else field)
           in case expect (schema p field1 \<noteq> None) ''unrecognized key %q for sorting'' [FStr field1] of
                Inl e \<Rightarrow> Inl e
              | Inr u \<Rightarrow>
                  (case schema p field1 of
                     None \<Rightarrow> Inl (Rerr NilDereference)
                   | Some f \<Rightarrow>
                       (case expect (Sortable (meta f)) ''field %q is not sortable'' [FStr field1] of
                          Inl e \<Rightarrow> Inl e
                        | Inr u \<Rightarrow>
                            Inr (if orderBy \<noteq> [] then colName p field1 @ '' '' @ orderBy
                                 else colName p field1)))))"

fun sort_loop :: "Parser \<Rightarrow> string list \<Rightarrow> string list \<Rightarrow> panic + string list" where
  "sort_loop p [] sortParams = Inr sortParams"
| "sort_loop p (field # rest) sortParams =
     (case sort_param p field of
        Inl e \<Rightarrow> Inl e
      | Inr c \<Rightarrow> sort_loop p rest (sortParams @ [c]))"

definition sort_clause :: "Parser \<Rightarrow> string list \<Rightarrow> panic + string" where
  "sort_clause p fs =
     (case sort_loop p fs [] of
        Inl e \<Rightarrow> Inl e
      | Inr sortParams \<Rightarrow> Inr (Join sortParams '', ''))"

subsection \<open>The filter expression\<close>

text \<open>The state of one parse: the text buffer and the slice \<^verbatim>\<open>values\<close>, both only appended to.\<close>

record parseState =
  Buffer :: string
  vals :: "arg list"

definition newParseState :: parseState where
  "newParseState = \<lparr>Buffer = [], vals = []\<rparr>"

definition WriteString :: "string \<Rightarrow> parseState \<Rightarrow> parseState" where
  "WriteString s ps = ps\<lparr>Buffer := Buffer ps @ s\<rparr>"

definition WriteByte :: "char \<Rightarrow> parseState \<Rightarrow> parseState" where
  "WriteByte c ps = ps\<lparr>Buffer := Buffer ps @ [c]\<rparr>"

definition append_value :: "arg \<Rightarrow> parseState \<Rightarrow> parseState" where
  "append_value a ps = ps\<lparr>vals := vals ps @ [a]\<rparr>"

definition has_op :: "Field \<Rightarrow> string \<Rightarrow> bool" where
  "has_op f opName = (case FilterOps (meta f) opName of Some b \<Rightarrow> b | None \<Rightarrow> False)"

text \<open>
  Validate, write the predicate, convert and append the value: what \<^verbatim>\<open>field\<close> does for
  the shorthand and for every entry of an operator object.
\<close>

definition emit :: "Parser \<Rightarrow> Field \<Rightarrow> Op \<Rightarrow> json \<Rightarrow> string \<Rightarrow> parseState \<Rightarrow> panic + parseState" where
  "emit p f o' v msg ps =
     (case ValidateFn f of
        None \<Rightarrow> Inl (Rerr NilDereference)
      | Some validate \<Rightarrow>
          (case must (validate o' (meta f) v) msg [FStr (Name (meta f))] of
             Inl e \<Rightarrow> Inl e
           | Inr u \<Rightarrow>
               (let ps1 = WriteString (fmtOp p f o') ps
                in case CovertFn f o' (meta f) v of
                     None \<Rightarrow> Inl (Rerr InterfaceConversion)
                   | Some a \<Rightarrow> Inr (append_value a ps1))))"

text \<open>
  The loop of \<^verbatim>\<open>field\<close> over the entries of an operator object, \<open>i\<close> counting the
  entries done. \<^verbatim>\<open>opName[1:]\<close> is evaluated first and panics on an empty name.
\<close>

fun field_loop :: "Parser \<Rightarrow> Field \<Rightarrow> nat \<Rightarrow> (string \<times> json) list \<Rightarrow> parseState \<Rightarrow> panic + parseState" where
  "field_loop p f i [] ps = Inr ps"
| "field_loop p f i ((opName, opVal) # rest) ps =
     (let ps1 = (if i > 0 then WriteString '' AND '' ps else ps)
      in if opName = [] then Inl (Rerr SliceBoundsOutOfRange)
         else
           (let o' = tl opName
            in case expect (has_op f opName) ''can not apply op %q on field %q''
                      [FStr opName, FStr (Name (meta f))] of
                 Inl e \<Rightarrow> Inl e
               | Inr u \<Rightarrow>
                   (case emit p f o' opVal ''invalid datatype or format for field %q'' ps1 of
                      Inl e \<Rightarrow> Inl e
                    | Inr ps2 \<Rightarrow> field_loop p f (i + 1) rest ps2)))"

definition field :: "Parser \<Rightarrow> Field \<Rightarrow> json \<Rightarrow> parseState \<Rightarrow> panic + parseState" where
  "field p f v ps =
     (let terms = (case v of JObj m \<Rightarrow> m | _ \<Rightarrow> []);
          ok = (case v of JObj m \<Rightarrow> True | _ \<Rightarrow> False)
      in case (if \<not> ok then emit p f EQ v ''invalid datatype for field %q'' ps else Inr ps) of
           Inl e \<Rightarrow> Inl e
         | Inr ps0 \<Rightarrow>
             (let ps1 = (if length terms > 1 then WriteByte CHR ''('' ps0 else ps0)
              in case field_loop p f 0 terms ps1 of
                   Inl e \<Rightarrow> Inl e
                 | Inr ps2 \<Rightarrow> Inr (if length terms > 1 then WriteByte CHR '')'' ps2 else ps2)))"

text \<open>
  \<^verbatim>\<open>and\<close> and \<^verbatim>\<open>relOp\<close> call each other. \<open>and_loop\<close> is the loop of \<^verbatim>\<open>and\<close> over the
  entries still to visit, \<open>relOp_loop\<close> the loop of \<^verbatim>\<open>relOp\<close>; \<open>i\<close> counts the
  entries done.
\<close>

function and_loop :: "Parser \<Rightarrow> nat \<Rightarrow> (string \<times> json) list \<Rightarrow> parseState \<Rightarrow> panic + parseState"
  and relOp :: "Parser \<Rightarrow> Op \<Rightarrow> json list \<Rightarrow> parseState \<Rightarrow> panic + parseState"
  and relOp_loop :: "Parser \<Rightarrow> Op \<Rightarrow> nat \<Rightarrow> json list \<Rightarrow> parseState \<Rightarrow> panic + parseState"
where
  "and_loop p i [] ps = Inr ps"
| "and_loop p i ((k, v) # rest) ps =
     (let ps1 = (if i > 0 then WriteString '' AND '' ps else ps)
      in case
           (if k = op p OR then
              (case v of
                 JArr terms \<Rightarrow> relOp p OR terms ps1
               | _ \<Rightarrow> Inl (Perr (ParseError ''$or must be type array'' [])))
            else if k = op p AND then
              (case v of
                 JArr terms \<Rightarrow> relOp p AND terms ps1
               | _ \<Rightarrow> Inl (Perr (ParseError ''$and must be type array'' [])))
            else
              (case schema p k of
                 Some f \<Rightarrow>
                   (case expect (Filterable (meta f)) ''field %q is not filterable'' [FStr k] of
                      Inl e \<Rightarrow> Inl e
                    | Inr u \<Rightarrow> field p f v ps1)
               | None \<Rightarrow> Inl (Perr (ParseError ''unrecognized key %q for filtering'' [FStr k]))))
         of
           Inl e \<Rightarrow> Inl e
         | Inr ps2 \<Rightarrow> and_loop p (i + 1) rest ps2)"
| "relOp p o' terms ps =
     (let ps1 = (if length terms > 1 then WriteByte CHR ''('' ps else ps)
      in case relOp_loop p o' 0 terms ps1 of
           Inl e \<Rightarrow> Inl e
         | Inr ps2 \<Rightarrow> Inr (if length terms > 1 then WriteByte CHR '')'' ps2 else ps2))"
| "relOp_loop p o' i [] ps = Inr ps"
| "relOp_loop p o' i (t # rest) ps =
     (let ps1 = (if i > 0
                 then WriteByte CHR '' '' (WriteString (GetDBOp p o' None) (WriteByte CHR '' '' ps))
                 else ps)
      in case
           (case t of
              JObj mt \<Rightarrow> and_loop p 0 mt ps1
            | _ \<Rightarrow> Inl (Perr (ParseError ''expressions for $%s operator must be type object'' [FStr o'])))
         of
           Inl e \<Rightarrow> Inl e
         | Inr ps2 \<Rightarrow> relOp_loop p o' (i + 1) rest ps2)"
  by pat_completeness auto
termination
  by (relation "measure (\<lambda>x. case x of
        Inl (p, i, kvs, ps) \<Rightarrow> 2 * size (JObj kvs)
      | Inr (Inl (p, o', terms, ps)) \<Rightarrow> 2 * size (JArr terms) + 1
      | Inr (Inr (p, o', i, terms, ps)) \<Rightarrow> 2 * size (JArr terms))") auto

definition and_map :: "Parser \<Rightarrow> (string \<times> json) list \<Rightarrow> parseState \<Rightarrow> panic + parseState" where
  "and_map p f ps = and_loop p 0 f ps"

section \<open>The entry points (rql.go, ParseQuery and Parse)\<close>

text \<open>
  The body of \<^verbatim>\<open>ParseQuery\<close>, up to the panic that ends it or the \<^verbatim>\<open>Params\<close> it
  fills. Limits and offsets are only compared, never computed with.
\<close>

definition ParseQuery_body :: "Parser \<Rightarrow> Query \<Rightarrow> panic + Params" where
  "ParseQuery_body p q =
     (let pr = \<lparr>Limit = DefaultLimit p, Offset = 0, Select = [], Sort = [],
                FilterExp = [], FilterArgs = []\<rparr>
      in case expect (qOffset q \<ge> 0) ''offset must be greater than or equal to 0'' [] of
           Inl e \<Rightarrow> Inl e
         | Inr u \<Rightarrow>
      (let pr = pr\<lparr>Offset := qOffset q\<rparr>
       in case
            (if qLimit q \<noteq> 0 then
               (case expect (qLimit q > 0 \<and> qLimit q \<le> LimitMaxValue p)
                       ''limit must be greater than 0 and less than or equal to %d''
                       [FInt (LimitMaxValue p)] of
                  Inl e \<Rightarrow> Inl e
                | Inr u \<Rightarrow> Inr (pr\<lparr>Limit := qLimit q\<rparr>))
             else Inr pr)
          of
            Inl e \<Rightarrow> Inl e
          | Inr pr \<Rightarrow>
      (case and_map p (qFilter q) newParseState of
         Inl e \<Rightarrow> Inl e
       | Inr ps \<Rightarrow>
      (let pr = pr\<lparr>FilterExp := Buffer ps, FilterArgs := vals ps\<rparr>
       in case sort_clause p (qSort q) of
            Inl e \<Rightarrow> Inl e
          | Inr s \<Rightarrow>
      (let pr = pr\<lparr>Sort := s\<rparr>
       in case
            (if length (Sort pr) = 0 \<and> length (DefaultSort p) > 0 then
               (case sort_clause p (DefaultSort p) of
                  Inl e \<Rightarrow> Inl e
                | Inr s \<Rightarrow> Inr (pr\<lparr>Sort := s\<rparr>))
             else Inr pr)
          of
            Inl e \<Rightarrow> Inl e
          | Inr pr \<Rightarrow> Inr (pr\<lparr>Select := Join (qSelect q) '', ''\<rparr>))))))"

text \<open>
  What a call of \<^verbatim>\<open>ParseQuery\<close> does: it returns the pair \<^verbatim>\<open>(pr, err)\<close>, or a panic
  leaves it. The deferred handler turns a recovered \<^verbatim>\<open>*ParseError\<close> into the returned
  error with a nil \<^verbatim>\<open>pr\<close>, and panics again with anything else.
\<close>

datatype outcome = Returned "Params option" "ParseError option" | Panicked runtime_error

definition ParseQuery :: "Parser \<Rightarrow> Query \<Rightarrow> outcome" where
  "ParseQuery p q =
     (case ParseQuery_body p q of
        Inr pr \<Rightarrow> Returned (Some pr) None
      | Inl (Perr perr) \<Rightarrow> Returned None (Some perr)
      | Inl (Rerr e) \<Rightarrow> Panicked e)"

text \<open>
  \<^verbatim>\<open>Parse\<close> decodes the buffer with the generated \<^verbatim>\<open>UnmarshalJSON\<close>, the parameter
  \<open>unmarshal\<close> here, which gives the query or the text of the decoding error.
\<close>

definition Parse :: "(string \<Rightarrow> string + Query) \<Rightarrow> Parser \<Rightarrow> string \<Rightarrow> outcome" where
  "Parse unmarshal p b =
     (case unmarshal b of
        Inl err \<Rightarrow> Returned None (Some (ParseError (''decoding buffer to *Query: '' @ err) []))
      | Inr q \<Rightarrow> ParseQuery p q)"

section \<open>Notions used to state the properties\<close>

subsection \<open>Column names by words\<close>

text \<open>
  The rule for column names read as a rule on words, for identifiers of ASCII characters:
  the identifier is cut in front of every position that is a word boundary, the words are
  joined with underscores and the result is lower-cased. Uppercase letters are \<^verbatim>\<open>A\<close> to
  \<^verbatim>\<open>Z\<close>, lowercase letters \<^verbatim>\<open>a\<close> to \<^verbatim>\<open>z\<close>, and lower-casing replaces every uppercase letter
  by its lowercase letter and leaves every other character as it is.
\<close>

definition is_ascii :: "string \<Rightarrow> bool" where
  "is_ascii s = list_all (\<lambda>c. (of_char c :: nat) < 128) s"

definition upper_letter :: "char \<Rightarrow> bool" where
  "upper_letter c = (of_char CHR ''A'' \<le> (of_char c :: nat) \<and> (of_char c :: nat) \<le> of_char CHR ''Z'')"

definition lower_letter :: "char \<Rightarrow> bool" where
  "lower_letter c = (of_char CHR ''a'' \<le> (of_char c :: nat) \<and> (of_char c :: nat) \<le> of_char CHR ''z'')"

definition letter :: "char \<Rightarrow> bool" where
  "letter c = (upper_letter c \<or> lower_letter c)"

definition lower_char :: "char \<Rightarrow> char" where
  "lower_char c =
     (if upper_letter c
      then char_of ((of_char c :: nat) + (of_char CHR ''a'' - of_char CHR ''A''))
      else c)"

definition lower_case :: "string \<Rightarrow> string" where
  "lower_case s = map lower_char s"

text \<open>
  \<open>boundary_claimed\<close> is the boundary as the specification words it; \<open>boundary\<close> also asks
  that the position is neither the first nor the last one.
\<close>

definition boundary_claimed :: "string \<Rightarrow> nat \<Rightarrow> bool" where
  "boundary_claimed s i =
     (i < length s \<and> upper_letter (s ! i) \<and>
      (0 < i \<and> lower_letter (s ! (i - 1)) \<or>
       i + 1 < length s \<and> lower_letter (s ! (i + 1)) \<and> 0 < i \<and> letter (s ! (i - 1))))"

definition boundary :: "string \<Rightarrow> nat \<Rightarrow> bool" where
  "boundary s i =
     (0 < i \<and> i + 1 < length s \<and> upper_letter (s ! i) \<and>
      (lower_letter (s ! (i - 1)) \<or> lower_letter (s ! (i + 1)) \<and> letter (s ! (i - 1))))"

text \<open>The words of the characters \<open>cs\<close> that start at position \<open>i\<close>.\<close>

fun split_from :: "(nat \<Rightarrow> bool) \<Rightarrow> nat \<Rightarrow> string \<Rightarrow> string list" where
  "split_from brk i [] = [[]]"
| "split_from brk i (c # cs) =
     (let ws = split_from brk (Suc i) cs
      in if cs \<noteq> [] \<and> brk (Suc i) then [c] # ws else (c # hd ws) # tl ws)"

definition Column_words :: "(string \<Rightarrow> nat \<Rightarrow> bool) \<Rightarrow> string \<Rightarrow> string" where
  "Column_words brk s = lower_case (Join (split_from (brk s) 0 s) ''_'')"

text \<open>
  The text that the loop of \<^verbatim>\<open>Column\<close> writes when it cuts at the positions \<open>brk\<close>,
  character by character.
\<close>

fun marks :: "(nat \<Rightarrow> bool) \<Rightarrow> nat \<Rightarrow> string \<Rightarrow> string" where
  "marks brk i [] = []"
| "marks brk i (c # cs) =
     WriteRune (toLower c) @ (if cs \<noteq> [] \<and> brk (Suc i) then ''_'' else []) @ marks brk (Suc i) cs"

subsection \<open>Integer kinds\<close>

definition isIntKind :: "Kind \<Rightarrow> bool" where
  "isIntKind k = (k \<in> {KInt, KInt8, KInt16, KInt32, KInt64})"

definition isUintKind :: "Kind \<Rightarrow> bool" where
  "isUintKind k = (k \<in> {KUint, KUint8, KUint16, KUint32, KUint64, KUintptr})"

subsection \<open>An example parser\<close>

text \<open>
  The parser of a model with the fields \<^verbatim>\<open>Age int\<close>, \<^verbatim>\<open>Name string\<close>, \<^verbatim>\<open>ID uint\<close> and
  a nested \<^verbatim>\<open>Address.Name string\<close>, all filterable and all but the name sortable, with
  the separator \<^verbatim>\<open>.\<close> and every other setting left to its default.
\<close>

definition no_time :: "string \<Rightarrow> string \<Rightarrow> string + time_Time" where
  "no_time layout s = Inl ''parsing time''"

definition example_config :: Parser where
  "example_config =
     \<lparr>OpPrefix = defaultString [] DefaultOpPrefix, FieldSep = defaultString ''.'' DefaultFieldSep,
      DefaultLimit = defaultInt 0 DefaultLimit_const,
      LimitMaxValue = defaultInt 0 DefaultMaxLimit,
      DefaultSort = [], GetDBOp = default_GetDBOp, GetDBDir = default_GetDBDir,
      schema = Map.empty\<rparr>"

definition example_meta :: "string \<Rightarrow> bool \<Rightarrow> Kind \<Rightarrow> FieldMeta" where
  "example_meta n srt k =
     \<lparr>Name = n, Sortable = srt, Filterable = True, FilterOps = Map.empty, Type = k,
      Layout = []\<rparr>"

definition example_parser :: Parser where
  "example_parser =
     (case init_loop no_time
             [(''Age'', example_meta ''age'' True KInt),
              (''Name'', example_meta ''name'' False KString),
              (''ID'', example_meta ''id'' True KUint),
              (''Address.Name'', example_meta ''address.name'' True KString)]
             example_config of
        Inl err \<Rightarrow> example_config
      | Inr p \<Rightarrow> p)"

definition empty_query :: Query where
  "empty_query = \<lparr>qLimit = 0, qOffset = 0, qSelect = [], qSort = [], qFilter = []\<rparr>"

subsection \<open>The steps of the loops\<close>

text \<open>
  One round of the loop of \<^verbatim>\<open>and\<close> writes the separator and handles the entry; one
  round of the loop of \<^verbatim>\<open>relOp\<close> writes the operator and compiles the term.
\<close>

definition sep_and :: "nat \<Rightarrow> parseState \<Rightarrow> parseState" where
  "sep_and i ps = (if i > 0 then WriteString '' AND '' ps else ps)"

definition and_entry :: "Parser \<Rightarrow> string \<Rightarrow> json \<Rightarrow> parseState \<Rightarrow> panic + parseState" where
  "and_entry p k v ps =
     (if k = op p OR then
        (case v of
           JArr terms \<Rightarrow> relOp p OR terms ps
         | _ \<Rightarrow> Inl (Perr (ParseError ''$or must be type array'' [])))
      else if k = op p AND then
        (case v of
           JArr terms \<Rightarrow> relOp p AND terms ps
         | _ \<Rightarrow> Inl (Perr (ParseError ''$and must be type array'' [])))
      else
        (case schema p k of
           Some f \<Rightarrow>
             (case expect (Filterable (meta f)) ''field %q is not filterable'' [FStr k] of
                Inl e \<Rightarrow> Inl e
              | Inr u \<Rightarrow> field p f v ps)
         | None \<Rightarrow> Inl (Perr (ParseError ''unrecognized key %q for filtering'' [FStr k]))))"

definition sep_rel :: "Parser \<Rightarrow> Op \<Rightarrow> nat \<Rightarrow> parseState \<Rightarrow> parseState" where
  "sep_rel p o' i ps =
     (if i > 0 then WriteByte CHR '' '' (WriteString (GetDBOp p o' None) (WriteByte CHR '' '' ps))
      else ps)"

definition relOp_term :: "Parser \<Rightarrow> Op \<Rightarrow> json \<Rightarrow> parseState \<Rightarrow> panic + parseState" where
  "relOp_term p o' t ps =
     (case t of
        JObj mt \<Rightarrow> and_map p mt ps
      | _ \<Rightarrow> Inl (Perr (ParseError ''expressions for $%s operator must be type object'' [FStr o'])))"

subsection \<open>A document with two violations\<close>

definition two_violations :: "(string \<times> json) list" where
  "two_violations = [(''bogus'', JNum 1)] @ [(''age'', JStr ''x'')]"

subsection \<open>The equality shorthand\<close>

text \<open>
  A scalar is any value but an object. \<open>prefixed_parser pre\<close> is the parser of a model with
  the one field \<^verbatim>\<open>Age int\<close>, filterable and sortable, configured with the operator prefix
  \<open>pre\<close> and every other setting as in the example parser.
\<close>

definition is_scalar :: "json \<Rightarrow> bool" where
  "is_scalar v = (case v of JObj m \<Rightarrow> False | _ \<Rightarrow> True)"



subsection \<open>Sort references\<close>

text \<open>
  A sort reference without its optional direction mark, the suffix that the mark asks for,
  and the column it lists. A reference is good when it is not empty and names a sortable
  field of the schema; \<open>sort_error\<close> is the error of a reference that is not.
  \<open>blank_parser\<close> has one sortable field, whose tag sets an empty column name.
\<close>

definition strip_dir :: "string \<Rightarrow> string" where
  "strip_dir r = (if r \<noteq> [] \<and> (hd r = ASC \<or> hd r = DESC) then tl r else r)"

definition dir_suffix :: "string \<Rightarrow> string" where
  "dir_suffix r =
     (if r \<noteq> [] \<and> hd r = DESC then '' desc''
      else if r \<noteq> [] \<and> hd r = ASC then '' asc''
      else [])"

definition sortable_ref :: "Parser \<Rightarrow> string \<Rightarrow> bool" where
  "sortable_ref p r = (case schema p (strip_dir r) of Some f \<Rightarrow> Sortable (meta f) | None \<Rightarrow> False)"

definition sort_column :: "Parser \<Rightarrow> string \<Rightarrow> string" where
  "sort_column p r = colName p (strip_dir r) @ dir_suffix r"

definition sort_error :: "Parser \<Rightarrow> string \<Rightarrow> ParseError" where
  "sort_error p r =
     (if r = [] then ParseError ''sort field can not be empty'' []
      else
        (case schema p (strip_dir r) of
           None \<Rightarrow> ParseError ''unrecognized key %q for sorting'' [FStr (strip_dir r)]
         | Some f \<Rightarrow> ParseError ''field %q is not sortable'' [FStr (strip_dir r)]))"

definition good_ref :: "Parser \<Rightarrow> string \<Rightarrow> bool" where
  "good_ref p r = (r \<noteq> [] \<and> sortable_ref p r)"

definition blank_parser :: Parser where
  "blank_parser =
     (case init_loop no_time [(''Blank'', example_meta [] True KString)] example_config of
        Inl err \<Rightarrow> example_config
      | Inr p \<Rightarrow> p)"

subsection \<open>Appending to a state\<close>

text \<open>
  \<open>append_state ps r\<close> is the state \<open>ps\<close> followed by the text and the values of \<open>r\<close>. A
  writer is framed when it does to any state what it does to the empty one, appended.
  \<open>compiled\<close> compiles every document of a list alone, from the empty state, up to the
  first one that fails; \<open>group\<close> is the parenthesized group of the compiled documents,
  joined by the rendering of the operator between spaces.
\<close>

definition append_state :: "parseState \<Rightarrow> parseState \<Rightarrow> parseState" where
  "append_state ps r = \<lparr>Buffer = Buffer ps @ Buffer r, vals = vals ps @ vals r\<rparr>"

definition framed :: "(parseState \<Rightarrow> panic + parseState) \<Rightarrow> bool" where
  "framed w = (\<forall>ps. w ps = map_sum id (append_state ps) (w newParseState))"

definition paren_open :: "nat \<Rightarrow> parseState \<Rightarrow> parseState" where
  "paren_open n ps = (if n > 1 then WriteByte CHR ''('' ps else ps)"

definition paren_close :: "nat \<Rightarrow> parseState \<Rightarrow> parseState" where
  "paren_close n ps = (if n > 1 then WriteByte CHR '')'' ps else ps)"

fun compiled :: "Parser \<Rightarrow> (string \<times> json) list list \<Rightarrow> panic + parseState list" where
  "compiled p [] = Inr []"
| "compiled p (d # ds) =
     (case and_map p d newParseState of
        Inl e \<Rightarrow> Inl e
      | Inr r \<Rightarrow> (case compiled p ds of Inl e \<Rightarrow> Inl e | Inr rs \<Rightarrow> Inr (r # rs)))"

definition rel_sep :: "Parser \<Rightarrow> Op \<Rightarrow> string" where
  "rel_sep p o' = '' '' @ GetDBOp p o' None @ '' ''"

definition group :: "Parser \<Rightarrow> Op \<Rightarrow> parseState list \<Rightarrow> parseState" where
  "group p o' rs =
     \<lparr>Buffer = ''('' @ Join (map Buffer rs) (rel_sep p o') @ '')'',
      vals = concat (map vals rs)\<rparr>"

definition neq_doc :: "real \<Rightarrow> (string \<times> json) list" where
  "neq_doc n = [(''age'', JObj [(''$neq'', JNum n)])]"

subsection \<open>Placeholders and the predicates of a document\<close>

text \<open>
  The predicates of a filter document, in the order in which the walk visits them: a field
  with a scalar gives one predicate of equality, a field with an operator object one
  predicate for every entry, and the documents under \<^verbatim>\<open>$or\<close> and \<^verbatim>\<open>$and\<close> give theirs.
  \<open>pred_text\<close> is the text of a predicate up to its placeholder and \<open>pred_arg\<close> its
  converted value. \<open>holes s\<close> lists, for every \<^verbatim>\<open>?\<close> of \<open>s\<close>, the text between the
  \<^verbatim>\<open>?\<close> before it and itself, and \<open>count_q s\<close> counts them. A list of predicates is
  plain when no text of theirs holds a \<^verbatim>\<open>?\<close>. \<open>exists_parser\<close> has an operator that renders
  as \<^verbatim>\<open>?|\<close>.
\<close>

type_synonym pred = "Field \<times> Op \<times> json"

definition preds_field :: "Field \<Rightarrow> json \<Rightarrow> pred list" where
  "preds_field f v =
     (case v of
        JObj terms \<Rightarrow> map (\<lambda>(opName, opVal). (f, tl opName, opVal)) terms
      | _ \<Rightarrow> [(f, EQ, v)])"

function preds_and :: "Parser \<Rightarrow> (string \<times> json) list \<Rightarrow> pred list"
  and preds_rel :: "Parser \<Rightarrow> json list \<Rightarrow> pred list"
where
  "preds_and p [] = []"
| "preds_and p ((k, v) # rest) =
     (if k = op p OR \<or> k = op p AND then
        (case v of JArr terms \<Rightarrow> preds_rel p terms | _ \<Rightarrow> [])
      else
        (case schema p k of Some f \<Rightarrow> preds_field f v | None \<Rightarrow> []))
     @ preds_and p rest"
| "preds_rel p [] = []"
| "preds_rel p (t # rest) =
     (case t of JObj mt \<Rightarrow> preds_and p mt | _ \<Rightarrow> []) @ preds_rel p rest"
  by pat_completeness auto
termination
  by (relation "measure (\<lambda>x. case x of
        Inl (p, kvs) \<Rightarrow> size (JObj kvs)
      | Inr (p, terms) \<Rightarrow> size (JArr terms))") auto

definition pred_text :: "Parser \<Rightarrow> pred \<Rightarrow> string" where
  "pred_text p x =
     (case x of (f, o', v) \<Rightarrow>
        colName p (Name (meta f)) @ '' '' @ GetDBOp p o' (Some (meta f)) @ '' '')"

definition pred_arg :: "pred \<Rightarrow> arg option" where
  "pred_arg x = (case x of (f, o', v) \<Rightarrow> CovertFn f o' (meta f) v)"

definition noq :: "string \<Rightarrow> bool" where
  "noq s = (CHR ''?'' \<notin> set s)"

definition count_q :: "string \<Rightarrow> nat" where
  "count_q s = length (filter (\<lambda>c. c = CHR ''?'') s)"

fun holes_acc :: "string \<Rightarrow> string \<Rightarrow> string list" where
  "holes_acc acc [] = []"
| "holes_acc acc (c # cs) =
     (if c = CHR ''?'' then acc # holes_acc [] cs else holes_acc (acc @ [c]) cs)"

definition holes :: "string \<Rightarrow> string list" where
  "holes s = holes_acc [] s"

fun last_acc :: "string \<Rightarrow> string \<Rightarrow> string" where
  "last_acc acc [] = acc"
| "last_acc acc (c # cs) = (if c = CHR ''?'' then last_acc [] cs else last_acc (acc @ [c]) cs)"

definition plain :: "Parser \<Rightarrow> pred list \<Rightarrow> bool" where
  "plain p xs = list_all (\<lambda>x. noq (pred_text p x)) xs"

definition plain_for :: "Parser \<Rightarrow> pred list \<Rightarrow> bool" where
  "plain_for p xs = (noq (GetDBOp p OR None) \<and> noq (GetDBOp p AND None) \<and> plain p xs)"

definition aligned :: "Parser \<Rightarrow> pred list \<Rightarrow> parseState \<Rightarrow> bool" where
  "aligned p xs r =
     (map pred_arg xs = map Some (vals r) \<and>
      list_all2 (\<lambda>h x. suffix (pred_text p x) h) (holes (Buffer r)) xs)"

definition preds_entry :: "Parser \<Rightarrow> string \<Rightarrow> json \<Rightarrow> pred list" where
  "preds_entry p k v =
     (if k = op p OR \<or> k = op p AND then
        (case v of JArr terms \<Rightarrow> preds_rel p terms | _ \<Rightarrow> [])
      else
        (case schema p k of Some f \<Rightarrow> preds_field f v | None \<Rightarrow> []))"

definition preds_term :: "Parser \<Rightarrow> json \<Rightarrow> pred list" where
  "preds_term p t = (case t of JObj mt \<Rightarrow> preds_and p mt | _ \<Rightarrow> [])"

definition example_filter :: "(string \<times> json) list" where
  "example_filter =
     [(''name'', JStr ''foo''), (''age'', JNum 12),
      (''$or'', JArr [JObj [(''age'', JObj [(''$neq'', JNum 10)])],
                      JObj [(''age'', JObj [(''$neq'', JNum 20)])]])]"

definition exists_field :: Field where
  "exists_field =
     \<lparr>meta = \<lparr>Name = ''alias_map'', Sortable = False, Filterable = True,
              FilterOps = [''$exists'' \<mapsto> True], Type = KOther, Layout = []\<rparr>,
      ValidateFn = Some validateString, CovertFn = valueFn\<rparr>"

definition custom_GetDBOp :: "Op \<Rightarrow> FieldMeta option \<Rightarrow> string" where
  "custom_GetDBOp o' m = (if o' = ''exists'' then ''?|'' else opFormat o')"

definition exists_parser :: Parser where
  "exists_parser =
     example_config\<lparr>GetDBOp := custom_GetDBOp, schema := [''alias_map'' \<mapsto> exists_field]\<rparr>"

section \<open>Column names\<close>

lemma split_from_nonempty: "split_from brk i cs \<noteq> []"
  by (cases cs) (simp_all add: Let_def)

lemma Join_Cons: "ws \<noteq> [] \<Longrightarrow> Join (w # ws) sep = w @ sep @ Join ws sep"
  by (cases ws) simp_all

lemma Join_extend_head:
  assumes "ws \<noteq> []"
  shows "Join ((c # hd ws) # tl ws) sep = c # Join ws sep"
proof (cases ws)
  case Nil
  with assms show ?thesis by simp
next
  case (Cons w ws')
  then show ?thesis by (cases ws') simp_all
qed

text \<open>
  On the characters below 128 the Latin-1 tables of the code are the ASCII letters, and the
  lower-cased code point of a character is written as one byte, its lowercase letter.
\<close>

lemma ascii_char:
  assumes "(of_char c :: nat) < 128"
  shows "isUpper c = upper_letter c" and "isLower c = lower_letter c"
    and "isLetter c = letter c" and "WriteRune (toLower c) = [lower_char c]"
proof -
  show u: "isUpper c = upper_letter c"
    using assms by (auto simp add: isUpper_def upper_letter_def Let_def)
  show l: "isLower c = lower_letter c"
    using assms by (auto simp add: isLower_def lower_letter_def Let_def)
  show "isLetter c = letter c"
    using assms u l by (auto simp add: isLetter_def letter_def Let_def)
  show "WriteRune (toLower c) = [lower_char c]"
  proof (cases "upper_letter c")
    case True
    then have "(of_char c :: nat) + 32 < 128" by (simp add: upper_letter_def)
    then show ?thesis using True u
      by (simp add: WriteRune_def toLower_def lower_char_def)
  next
    case False
    then show ?thesis using assms u
      by (simp add: WriteRune_def toLower_def lower_char_def)
  qed
qed

lemma is_ascii_nth: "is_ascii s \<Longrightarrow> i < length s \<Longrightarrow> (of_char (s ! i) :: nat) < 128"
  by (simp add: is_ascii_def list_all_length)

lemma lower_char_underscore: "lower_char CHR ''_'' = CHR ''_''"
  by (simp add: lower_char_def upper_letter_def)

text \<open>Joining the words and lower-casing them leaves an underscore at every cut.\<close>

lemma lower_Join_split:
  "is_ascii cs \<Longrightarrow> lower_case (Join (split_from brk i cs) ''_'') = marks brk i cs"
proof (induction cs arbitrary: i)
  case Nil
  show ?case by (simp add: lower_case_def)
next
  case (Cons c cs)
  have ne: "split_from brk (Suc i) cs \<noteq> []" by (rule split_from_nonempty)
  have c: "WriteRune (toLower c) = [lower_char c]"
    using Cons.prems by (simp add: is_ascii_def ascii_char(4))
  have ih: "lower_case (Join (split_from brk (Suc i) cs) ''_'') = marks brk (Suc i) cs"
    using Cons.prems by (intro Cons.IH) (simp add: is_ascii_def)
  show ?case
  proof (cases "cs \<noteq> [] \<and> brk (Suc i)")
    case True
    then have "Join (split_from brk i (c # cs)) ''_'' =
               [c] @ ''_'' @ Join (split_from brk (Suc i) cs) ''_''"
      using ne by (simp add: Join_Cons)
    then have "lower_case (Join (split_from brk i (c # cs)) ''_'') =
               [lower_char c] @ ''_'' @ lower_case (Join (split_from brk (Suc i) cs) ''_'')"
      by (simp add: lower_case_def lower_char_underscore)
    then show ?thesis using True by (simp add: ih c)
  next
    case False
    then have "Join (split_from brk i (c # cs)) ''_'' =
               c # Join (split_from brk (Suc i) cs) ''_''"
      using ne by (auto simp add: Join_extend_head Let_def)
    then have "lower_case (Join (split_from brk i (c # cs)) ''_'') =
               lower_char c # lower_case (Join (split_from brk (Suc i) cs) ''_'')"
      by (simp add: lower_case_def)
    then show ?thesis using False by (auto simp add: ih c)
  qed
qed

lemma marks_drop:
  assumes "i < length s"
  shows "marks brk i (drop i s) =
         WriteRune (toLower (s ! i)) @ (if Suc i < length s \<and> brk (Suc i) then ''_'' else []) @
         marks brk (Suc i) (drop (Suc i) s)"
proof -
  have "drop i s = s ! i # drop (Suc i) s" using assms by (simp add: Cons_nth_drop_Suc)
  moreover have "drop (Suc i) s \<noteq> [] \<longleftrightarrow> Suc i < length s" by auto
  ultimately show ?thesis by simp
qed

text \<open>
  The loop from position \<open>i\<close> on appends the marked text of the rest of the string; on
  ASCII characters its test is the boundary.
\<close>

lemma Column_loop_marks:
  "i \<le> length s \<Longrightarrow> is_ascii s \<Longrightarrow>
   Column_loop s i b =
     b @ (if boundary s i then ''_'' else []) @ marks (boundary s) i (drop i s)"
proof (induction s i b rule: Column_loop.induct)
  case (1 s i b)
  note asc = is_ascii_nth[OF "1.prems"(2)]
  show ?case
  proof (cases "i < length s")
    case False
    with "1.prems" have "i = length s" by simp
    then show ?thesis by (simp add: boundary_def)
  next
    case True
    let ?c = "i > 0 \<and> i < length s - 1 \<and> isUpper (s ! i) \<and>
                (isLower (s ! (i - 1)) \<or> isLower (s ! (i + 1)) \<and> isLetter (s ! (i - 1)))"
    let ?b1 = "(if ?c then b @ ''_'' else b) @ WriteRune (toLower (s ! i))"
    have c: "?c \<longleftrightarrow> boundary s i"
    proof (cases "0 < i \<and> i + 1 < length s")
      case False
      then show ?thesis by (auto simp: boundary_def)
    next
      case in_range: True
      then have "i < length s" "i - 1 < length s" "i + 1 < length s" by auto
      then have "(of_char (s ! i) :: nat) < 128" "(of_char (s ! (i - 1)) :: nat) < 128"
        "(of_char (s ! (i + 1)) :: nat) < 128"
        by (simp_all add: asc)
      then have "isUpper (s ! i) = upper_letter (s ! i)"
        "isLower (s ! (i - 1)) = lower_letter (s ! (i - 1))"
        "isLower (s ! (i + 1)) = lower_letter (s ! (i + 1))"
        "isLetter (s ! (i - 1)) = letter (s ! (i - 1))"
        by (simp_all add: ascii_char)
      then show ?thesis using in_range by (auto simp: boundary_def)
    qed
    have b2: "boundary s (Suc i) \<Longrightarrow> Suc i < length s" by (simp add: boundary_def)
    have step: "Column_loop s i b = Column_loop s (i + 1) ?b1"
      using True by (subst Column_loop.simps) (simp add: Let_def)
    have ih: "Column_loop s (i + 1) ?b1 =
        ?b1 @ (if boundary s (i + 1) then ''_'' else []) @
        marks (boundary s) (i + 1) (drop (i + 1) s)"
      using "1.IH"[OF True refl refl _ "1.prems"(2)] True by simp
    show ?thesis
      unfolding step ih using c b2 marks_drop[OF True, of "boundary s"] by auto
  qed
qed

text \<open>
  Claim C7, as the code has it. For every identifier \<open>s\<close> of ASCII characters, \<open>Column s\<close>
  is \<open>s\<close> cut into words, joined with underscores and lower-cased, where a word starts at
  an uppercase letter that is neither the first nor the last character of \<open>s\<close> and that
  follows a lowercase letter, or precedes a lowercase letter and follows a letter. In
  particular \<^verbatim>\<open>UserName\<close> gives \<^verbatim>\<open>user_name\<close> and \<^verbatim>\<open>HTTPCode\<close> gives \<^verbatim>\<open>http_code\<close>.
\<close>

theorem Column_joins_words:
  assumes "is_ascii s"
  shows "Column s = Column_words boundary s \<and>
         Column ''UserName'' = ''user_name'' \<and>
         Column ''HTTPCode'' = ''http_code''"
proof -
  have "Column s = Column_words boundary s"
    using Column_loop_marks[of 0 s "[]"] assms
    by (simp add: Column_def Column_words_def lower_Join_split boundary_def)
  moreover have "Column ''UserName'' = ''user_name''" by code_simp
  moreover have "Column ''HTTPCode'' = ''http_code''" by code_simp
  ultimately show ?thesis by simp
qed

text \<open>
  The rule at an identifier with an acronym in the middle and a digit: the words of
  \<^verbatim>\<open>userHTTPCode2\<close> are \<^verbatim>\<open>user\<close>, \<^verbatim>\<open>HTTP\<close> and \<^verbatim>\<open>Code2\<close>.
\<close>

theorem Column_joins_words_witness:
  "is_ascii ''userHTTPCode2'' \<and>
   split_from (boundary ''userHTTPCode2'') 0 ''userHTTPCode2'' = [''user'', ''HTTP'', ''Code2''] \<and>
   Column ''userHTTPCode2'' = ''user_http_code2''"
proof -
  have a: "is_ascii ''userHTTPCode2''" by code_simp
  have w: "split_from (boundary ''userHTTPCode2'') 0 ''userHTTPCode2'' =
           [''user'', ''HTTP'', ''Code2'']"
    by code_simp
  have "Column_words boundary ''userHTTPCode2'' = ''user_http_code2''" by code_simp
  with Column_joins_words[OF a] a w show ?thesis by simp
qed

text \<open>
  Claim C7 as stated, with every uppercase letter after a lowercase letter as a boundary,
  fails on an identifier that ends in such a letter: the words of \<^verbatim>\<open>userA\<close> are
  \<^verbatim>\<open>user\<close> and \<^verbatim>\<open>A\<close>, and \<^verbatim>\<open>Column\<close> returns \<^verbatim>\<open>usera\<close>.
\<close>

theorem Column_last_letter_counterexample:
  "Column_words boundary_claimed ''userA'' = ''user_a'' \<and> Column ''userA'' = ''usera''"
proof -
  have "Column_words boundary_claimed ''userA'' = ''user_a''" by code_simp
  moreover have "Column ''userA'' = ''usera''" by code_simp
  ultimately show ?thesis by simp
qed

section \<open>Integer validation and conversion\<close>

lemma Trunc_eq_iff: "Trunc n = n \<longleftrightarrow> frac n = 0"
proof
  assume "Trunc n = n"
  then have "n \<in> \<int>" unfolding Trunc_def by (metis Ints_of_int)
  then show "frac n = 0" by (simp add: frac_eq_0_iff)
next
  assume "frac n = 0"
  then have "n \<in> \<int>" by (simp add: frac_eq_0_iff)
  then obtain k where "n = of_int k" by (auto elim: Ints_cases)
  then show "Trunc n = n" by (simp add: Trunc_def)
qed

lemma validateInt_num:
  "validateInt o' f (JNum n) = (if frac n = 0 then None else Some ''not an integer'')"
  by (simp add: validateInt_def Trunc_eq_iff)

lemma validateUInt_num:
  "validateUInt o' f (JNum n) =
     (if frac n \<noteq> 0 then Some ''not an integer''
      else if n < 0 then Some ''not an unsigned integer'' else None)"
  by (simp add: validateUInt_def validateInt_num)

lemma int_of_float64_exact:
  assumes "frac n = 0" "real_of_int MinInt \<le> n" "n \<le> real_of_int MaxInt"
  shows "real_of_int (int_of_float64 n) = n"
proof -
  from assms(1) have "n \<in> \<int>" by (simp add: frac_eq_0_iff)
  then obtain k where k: "n = of_int k" by (auto elim: Ints_cases)
  with assms show ?thesis
    by (simp add: int_of_float64_def Let_def)
qed

lemma int_of_float64_range: "MinInt \<le> int_of_float64 n \<and> int_of_float64 n \<le> MaxInt"
  by (simp add: int_of_float64_def Let_def MinInt_def MaxInt_def)

lemma int_kind_resolution:
  "isIntKind (Type f) \<Longrightarrow>
   GetValidateFn parse f = Some validateInt \<and> GetConverterFn parse f = convertInt"
  by (auto simp: isIntKind_def GetValidateFn_def GetConverterFn_def)

lemma uint_kind_resolution:
  "isUintKind (Type f) \<Longrightarrow>
   GetValidateFn parse f = Some validateUInt \<and> GetConverterFn parse f = convertInt"
  by (auto simp: isUintKind_def GetValidateFn_def GetConverterFn_def)

text \<open>
  Claim C8, as the code has it. A field of a signed integer kind is validated by
  \<open>validateInt\<close> and one of an unsigned kind by \<open>validateUInt\<close>, and both are converted by
  \<open>convertInt\<close>. Both validators reject a number with a non-zero fractional part;
  \<open>validateInt\<close> accepts every number with a zero fractional part; \<open>validateUInt\<close> rejects
  every negative number and accepts the others with a zero fractional part. An accepted
  number that an int can hold, from \<open>MinInt\<close> to \<open>MaxInt\<close>, is converted to the integer of
  equal value.
\<close>

theorem integer_fields_validate_and_convert:
  "(isIntKind (Type f) \<longrightarrow>
      GetValidateFn parse f = Some validateInt \<and> GetConverterFn parse f = convertInt) \<and>
   (isUintKind (Type f) \<longrightarrow>
      GetValidateFn parse f = Some validateUInt \<and> GetConverterFn parse f = convertInt) \<and>
   (frac n \<noteq> 0 \<longrightarrow>
      validateInt o' f (JNum n) = Some ''not an integer'' \<and>
      validateUInt o' f (JNum n) = Some ''not an integer'') \<and>
   (frac n = 0 \<longrightarrow> validateInt o' f (JNum n) = None) \<and>
   (frac n = 0 \<and> real_of_int MinInt \<le> n \<and> n \<le> real_of_int MaxInt \<longrightarrow>
      (\<exists>k. convertInt o' f (JNum n) = Some (AInt k) \<and> real_of_int k = n)) \<and>
   (n < 0 \<longrightarrow> validateUInt o' f (JNum n) \<noteq> None) \<and>
   (frac n = 0 \<and> 0 \<le> n \<longrightarrow> validateUInt o' f (JNum n) = None)"
  using int_kind_resolution[of f parse] uint_kind_resolution[of f parse]
    int_of_float64_exact[of n]
  by (simp add: validateInt_num validateUInt_num convertInt_def)

theorem integer_fields_witness:
  "GetValidateFn no_time (example_meta ''age'' True KInt) = Some validateInt \<and>
   GetConverterFn no_time (example_meta ''age'' True KInt) = convertInt \<and>
   validateInt EQ (example_meta ''age'' True KInt) (JNum (3 / 2)) = Some ''not an integer'' \<and>
   validateInt EQ (example_meta ''age'' True KInt) (JNum 2) = None \<and>
   convertInt EQ (example_meta ''age'' True KInt) (JNum 2) = Some (AInt 2) \<and>
   validateUInt EQ (example_meta ''id'' True KUint) (JNum (- 1)) \<noteq> None"
proof -
  let ?m = "example_meta ''age'' True KInt"
  have k: "isIntKind (Type ?m)" by (simp add: isIntKind_def example_meta_def)
  have f1: "frac (3 / 2 :: real) \<noteq> 0" by (simp add: frac_def)
  have f2: "frac (2 :: real) = 0 \<and> real_of_int MinInt \<le> 2 \<and> 2 \<le> real_of_int MaxInt"
    by (simp add: MinInt_def MaxInt_def)
  from integer_fields_validate_and_convert[of ?m no_time 2 EQ] k f2
  have a: "GetValidateFn no_time ?m = Some validateInt" "GetConverterFn no_time ?m = convertInt"
      "validateInt EQ ?m (JNum 2) = None"
      "\<exists>k. convertInt EQ ?m (JNum 2) = Some (AInt k) \<and> real_of_int k = 2"
    by blast+
  from a(4) have c: "convertInt EQ ?m (JNum 2) = Some (AInt 2)"
    by (metis of_int_eq_numeral_iff)
  from integer_fields_validate_and_convert[of ?m no_time "3 / 2" EQ] f1
  have b: "validateInt EQ ?m (JNum (3 / 2)) = Some ''not an integer''" by blast
  from integer_fields_validate_and_convert[of "example_meta ''id'' True KUint" no_time "- 1" EQ]
  have d: "validateUInt EQ (example_meta ''id'' True KUint) (JNum (- 1)) \<noteq> None" by simp
  from a(1,2,3) b c d show ?thesis by simp
qed

text \<open>
  Claim C8 as stated fails on a number with a zero fractional part that no int holds:
  \<open>2 ^ 63\<close> passes \<open>validateInt\<close>, and the int that \<open>convertInt\<close> returns is another number.
\<close>

theorem integer_conversion_counterexample:
  "frac (2 ^ 63 :: real) = 0 \<and>
   validateInt EQ (example_meta ''age'' True KInt) (JNum (2 ^ 63)) = None \<and>
   convertInt EQ (example_meta ''age'' True KInt) (JNum (2 ^ 63)) \<noteq> Some (AInt (2 ^ 63))"
proof -
  have "frac (2 ^ 63 :: real) = 0"
    by (metis frac_of_int of_int_numeral of_int_power)
  then show ?thesis
    by (simp add: validateInt_num convertInt_def int_of_float64_def MinInt_def MaxInt_def)
qed

section \<open>The walk stops at the first failure\<close>

lemma and_loop_Cons:
  "and_loop p i ((k, v) # rest) ps =
     (case and_entry p k v (sep_and i ps) of
        Inl e \<Rightarrow> Inl e
      | Inr ps2 \<Rightarrow> and_loop p (i + 1) rest ps2)"
  by (simp add: and_entry_def sep_and_def Let_def)

lemma relOp_loop_Cons:
  "relOp_loop p o' i (t # rest) ps =
     (case relOp_term p o' t (sep_rel p o' i ps) of
        Inl e \<Rightarrow> Inl e
      | Inr ps2 \<Rightarrow> relOp_loop p o' (i + 1) rest ps2)"
  by (cases t) (simp_all add: relOp_term_def sep_rel_def and_map_def Let_def)

lemma and_loop_first_failure:
  "and_loop p i kvs ps = Inl e \<Longrightarrow> and_loop p i (kvs @ rest') ps = Inl e"
proof (induction kvs arbitrary: i ps)
  case Nil
  then show ?case by simp
next
  case (Cons kv kvs)
  obtain k v where kv: "kv = (k, v)" by (cases kv)
  show ?case
  proof (cases "and_entry p k v (sep_and i ps)")
    case (Inl e')
    with Cons.prems kv show ?thesis by (simp add: and_loop_Cons del: and_loop.simps)
  next
    case (Inr ps2)
    with Cons.prems kv have "and_loop p (i + 1) kvs ps2 = Inl e"
      by (simp add: and_loop_Cons del: and_loop.simps)
    from Cons.IH[OF this] Inr kv show ?thesis
      by (simp add: and_loop_Cons del: and_loop.simps)
  qed
qed

lemma relOp_loop_first_failure:
  "relOp_loop p o' i ts ps = Inl e \<Longrightarrow> relOp_loop p o' i (ts @ rest') ps = Inl e"
proof (induction ts arbitrary: i ps)
  case Nil
  then show ?case by simp
next
  case (Cons t ts)
  show ?case
  proof (cases "relOp_term p o' t (sep_rel p o' i ps)")
    case (Inl e')
    with Cons.prems show ?thesis by (simp add: relOp_loop_Cons del: relOp_loop.simps)
  next
    case (Inr ps2)
    with Cons.prems have "relOp_loop p o' (i + 1) ts ps2 = Inl e"
      by (simp add: relOp_loop_Cons del: relOp_loop.simps)
    from Cons.IH[OF this] Inr show ?thesis
      by (simp add: relOp_loop_Cons del: relOp_loop.simps)
  qed
qed

lemma field_loop_first_failure:
  "field_loop p f i ts ps = Inl e \<Longrightarrow> field_loop p f i (ts @ rest') ps = Inl e"
proof (induction ts arbitrary: i ps)
  case Nil
  then show ?case by simp
next
  case (Cons t ts)
  obtain n v where t: "t = (n, v)" by (cases t)
  from Cons.prems Cons.IH show ?case unfolding t
    by (auto simp add: Let_def split: if_splits sum.splits)
qed

lemma sort_loop_first_failure:
  "sort_loop p fs acc = Inl e \<Longrightarrow> sort_loop p (fs @ rest') acc = Inl e"
  by (induction fs arbitrary: acc) (auto split: sum.splits)

lemma ParseQuery_Returned:
  "ParseQuery p q = Returned pr err \<Longrightarrow> (pr = None \<longleftrightarrow> err \<noteq> None)"
  by (auto simp add: ParseQuery_def split: sum.splits panic.splits)

lemma ParseQuery_filter_error:
  "0 \<le> qOffset q \<Longrightarrow> qLimit q = 0 \<or> 0 < qLimit q \<and> qLimit q \<le> LimitMaxValue p \<Longrightarrow>
   and_map p (qFilter q) newParseState = Inl e \<Longrightarrow> ParseQuery_body p q = Inl e"
  by (auto simp add: ParseQuery_body_def expect_def Let_def)


section \<open>Limit and offset\<close>

lemma body_offset_negative:
  "qOffset q < 0 \<Longrightarrow>
   ParseQuery_body p q = Inl (Perr (ParseError ''offset must be greater than or equal to 0'' []))"
  by (simp add: ParseQuery_body_def expect_def)

lemma body_limit_invalid:
  "0 \<le> qOffset q \<Longrightarrow> qLimit q \<noteq> 0 \<Longrightarrow> \<not> (0 < qLimit q \<and> qLimit q \<le> LimitMaxValue p) \<Longrightarrow>
   ParseQuery_body p q =
     Inl (Perr (ParseError ''limit must be greater than 0 and less than or equal to %d''
                  [FInt (LimitMaxValue p)]))"
  by (simp add: ParseQuery_body_def expect_def)

lemma body_success:
  "ParseQuery_body p q = Inr pr \<Longrightarrow>
   0 \<le> qOffset q \<and> (qLimit q = 0 \<or> 0 < qLimit q \<and> qLimit q \<le> LimitMaxValue p) \<and>
   Offset pr = qOffset q \<and> Limit pr = (if qLimit q = 0 then DefaultLimit p else qLimit q) \<and>
   Select pr = Join (qSelect q) '', '' \<and>
   (\<exists>ps. and_map p (qFilter q) newParseState = Inr ps \<and> FilterExp pr = Buffer ps \<and> FilterArgs pr = vals ps)"
  by (auto simp add: ParseQuery_body_def expect_def Let_def split: if_splits sum.splits)

lemma ParseQuery_cases:
  "ParseQuery p q = Returned pr err \<Longrightarrow>
   (\<exists>r. ParseQuery_body p q = Inr r \<and> pr = Some r \<and> err = None) \<or>
   (\<exists>e. ParseQuery_body p q = Inl (Perr e) \<and> pr = None \<and> err = Some e)"
  by (auto simp add: ParseQuery_def split: sum.splits panic.splits)

text \<open>
  Claim C4. A negative offset makes \<open>ParseQuery\<close> return an error. A limit other than zero
  that is not positive or exceeds \<open>LimitMaxValue\<close> makes it return an error. Whenever it
  returns parameters, their offset is the offset of the query, and their limit is the
  default limit when the query has limit zero and the limit of the query otherwise.
\<close>

theorem ParseQuery_limit_offset:
  "(qOffset q < 0 \<longrightarrow>
      ParseQuery p q =
        Returned None (Some (ParseError ''offset must be greater than or equal to 0'' []))) \<and>
   (qLimit q \<noteq> 0 \<and> \<not> (0 < qLimit q \<and> qLimit q \<le> LimitMaxValue p) \<longrightarrow>
      (\<exists>e. ParseQuery p q = Returned None (Some e))) \<and>
   (0 \<le> qOffset q \<and> qLimit q \<noteq> 0 \<and> \<not> (0 < qLimit q \<and> qLimit q \<le> LimitMaxValue p) \<longrightarrow>
      ParseQuery p q =
        Returned None
          (Some (ParseError ''limit must be greater than 0 and less than or equal to %d''
                   [FInt (LimitMaxValue p)]))) \<and>
   (\<forall>pr err. ParseQuery p q = Returned (Some pr) err \<longrightarrow>
      Offset pr = qOffset q \<and>
      Limit pr = (if qLimit q = 0 then DefaultLimit p else qLimit q))"
proof (intro conjI impI allI)
  assume "qOffset q < 0"
  then show "ParseQuery p q =
        Returned None (Some (ParseError ''offset must be greater than or equal to 0'' []))"
    by (simp add: ParseQuery_def body_offset_negative)
next
  assume a: "qLimit q \<noteq> 0 \<and> \<not> (0 < qLimit q \<and> qLimit q \<le> LimitMaxValue p)"
  show "\<exists>e. ParseQuery p q = Returned None (Some e)"
  proof (cases "qOffset q < 0")
    case True
    then show ?thesis by (simp add: ParseQuery_def body_offset_negative)
  next
    case False
    with a show ?thesis by (simp add: ParseQuery_def body_limit_invalid)
  qed
next
  assume "0 \<le> qOffset q \<and> qLimit q \<noteq> 0 \<and> \<not> (0 < qLimit q \<and> qLimit q \<le> LimitMaxValue p)"
  then show "ParseQuery p q =
        Returned None
          (Some (ParseError ''limit must be greater than 0 and less than or equal to %d''
                   [FInt (LimitMaxValue p)]))"
    by (simp add: ParseQuery_def body_limit_invalid)
next
  fix pr err
  assume "ParseQuery p q = Returned (Some pr) err"
  then have "ParseQuery_body p q = Inr pr" by (auto dest: ParseQuery_cases)
  then show "Offset pr = qOffset q" "Limit pr = (if qLimit q = 0 then DefaultLimit p else qLimit q)"
    by (auto dest: body_success)
qed

theorem ParseQuery_limit_offset_witness:
  "ParseQuery example_parser (empty_query\<lparr>qOffset := - 1\<rparr>) =
     Returned None (Some (ParseError ''offset must be greater than or equal to 0'' [])) \<and>
   ParseQuery example_parser (empty_query\<lparr>qLimit := 101\<rparr>) =
     Returned None
       (Some (ParseError ''limit must be greater than 0 and less than or equal to %d'' [FInt 100])) \<and>
   ParseQuery example_parser (empty_query\<lparr>qLimit := - 5\<rparr>) =
     Returned None
       (Some (ParseError ''limit must be greater than 0 and less than or equal to %d'' [FInt 100])) \<and>
   (\<exists>pr. ParseQuery example_parser (empty_query\<lparr>qOffset := 7\<rparr>) = Returned (Some pr) None \<and>
         Offset pr = 7 \<and> Limit pr = 25) \<and>
   (\<exists>pr. ParseQuery example_parser (empty_query\<lparr>qLimit := 100, qOffset := 7\<rparr>) =
           Returned (Some pr) None \<and>
         Offset pr = 7 \<and> Limit pr = 100)"
proof -
  have mx: "LimitMaxValue example_parser = 100" by code_simp
  have dl: "DefaultLimit example_parser = 25" by code_simp
  have 1: "ParseQuery example_parser (empty_query\<lparr>qOffset := - 1\<rparr>) =
     Returned None (Some (ParseError ''offset must be greater than or equal to 0'' []))"
    using ParseQuery_limit_offset[of "empty_query\<lparr>qOffset := - 1\<rparr>" example_parser]
    by (simp add: empty_query_def)
  have 2: "ParseQuery example_parser (empty_query\<lparr>qLimit := 101\<rparr>) =
     Returned None
       (Some (ParseError ''limit must be greater than 0 and less than or equal to %d'' [FInt 100]))"
    using ParseQuery_limit_offset[of "empty_query\<lparr>qLimit := 101\<rparr>" example_parser]
    by (simp add: empty_query_def mx)
  have 3: "ParseQuery example_parser (empty_query\<lparr>qLimit := - 5\<rparr>) =
     Returned None
       (Some (ParseError ''limit must be greater than 0 and less than or equal to %d'' [FInt 100]))"
    using ParseQuery_limit_offset[of "empty_query\<lparr>qLimit := - 5\<rparr>" example_parser]
    by (simp add: empty_query_def mx)
  have r4: "ParseQuery example_parser (empty_query\<lparr>qOffset := 7\<rparr>) =
      Returned (Some \<lparr>Limit = 25, Offset = 7, Select = [], Sort = [], FilterExp = [],
                       FilterArgs = []\<rparr>) None"
    by code_simp
  have 4: "\<exists>pr. ParseQuery example_parser (empty_query\<lparr>qOffset := 7\<rparr>) = Returned (Some pr) None \<and>
         Offset pr = 7 \<and> Limit pr = 25"
    using ParseQuery_limit_offset[of "empty_query\<lparr>qOffset := 7\<rparr>" example_parser] r4
    by (simp add: empty_query_def dl)
  have r5: "ParseQuery example_parser (empty_query\<lparr>qLimit := 100, qOffset := 7\<rparr>) =
      Returned (Some \<lparr>Limit = 100, Offset = 7, Select = [], Sort = [], FilterExp = [],
                       FilterArgs = []\<rparr>) None"
    by code_simp
  have 5: "\<exists>pr. ParseQuery example_parser (empty_query\<lparr>qLimit := 100, qOffset := 7\<rparr>) =
           Returned (Some pr) None \<and> Offset pr = 7 \<and> Limit pr = 100"
    using ParseQuery_limit_offset[of "empty_query\<lparr>qLimit := 100, qOffset := 7\<rparr>" example_parser] r5
    by (simp add: empty_query_def)
  from 1 2 3 4 5 show ?thesis by blast
qed

section \<open>Errors and panics of a parse\<close>

lemma ParseQuery_body_error:
  "ParseQuery_body p q = Inl (Perr e) \<Longrightarrow> ParseQuery p q = Returned None (Some e)"
  by (simp add: ParseQuery_def)

lemma and_map_first_failure:
  "and_map p kvs ps = Inl e \<Longrightarrow> and_map p (kvs @ rest') ps = Inl e"
  by (simp add: and_map_def and_loop_first_failure)

text \<open>
  Whenever \<open>ParseQuery\<close> returns, it returns an error exactly when it returns no
  parameters, so an error never comes with parameters; the error is the one
  \<^verbatim>\<open>ParseError\<close> of the panic that ended the body, and a failure of the filter walk is
  returned whatever the sort list holds. The walk stops at the first failure: a loop that
  fails on a list of entries fails in the same way when more entries follow. \<open>Parse\<close>
  returns the decoding error with no parameters, or what \<open>ParseQuery\<close> returns.
\<close>

theorem ParseQuery_first_error_only:
  "(ParseQuery p q = Returned pr err \<longrightarrow> (pr = None \<longleftrightarrow> err \<noteq> None)) \<and>
   (ParseQuery_body p q = Inl (Perr e) \<longrightarrow> ParseQuery p q = Returned None (Some e)) \<and>
   (0 \<le> qOffset q \<and> (qLimit q = 0 \<or> 0 < qLimit q \<and> qLimit q \<le> LimitMaxValue p) \<and>
    and_map p (qFilter q) newParseState = Inl (Perr e) \<longrightarrow>
      ParseQuery p q = Returned None (Some e)) \<and>
   (and_map p kvs ps = Inl x \<longrightarrow> and_map p (kvs @ kvs') ps = Inl x) \<and>
   (relOp_loop p o' i ts ps = Inl x \<longrightarrow> relOp_loop p o' i (ts @ ts') ps = Inl x) \<and>
   (field_loop p f i ops ps = Inl x \<longrightarrow> field_loop p f i (ops @ ops') ps = Inl x) \<and>
   (sort_loop p fs acc = Inl x \<longrightarrow> sort_loop p (fs @ fs') acc = Inl x) \<and>
   (unmarshal b = Inl msg \<longrightarrow>
      Parse unmarshal p b =
        Returned None (Some (ParseError (''decoding buffer to *Query: '' @ msg) []))) \<and>
   (unmarshal b = Inr q \<longrightarrow> Parse unmarshal p b = ParseQuery p q)"
  using ParseQuery_Returned[of p q pr err] ParseQuery_body_error[of p q e]
    ParseQuery_filter_error[of q p "Perr e"]
    and_map_first_failure[of p kvs ps x kvs'] relOp_loop_first_failure[of p o' i ts ps x ts']
    field_loop_first_failure[of p f i ops ps x ops'] sort_loop_first_failure[of p fs acc x fs']
  by (simp add: Parse_def)

theorem ParseQuery_first_error_witness:
  "ParseQuery example_parser (empty_query\<lparr>qFilter := two_violations\<rparr>) =
     Returned None (Some (ParseError ''unrecognized key %q for filtering'' [FStr ''bogus'']))"
proof -
  let ?e = "ParseError ''unrecognized key %q for filtering'' [FStr ''bogus'']"
  let ?q = "empty_query\<lparr>qFilter := two_violations\<rparr>"
  have 1: "and_map example_parser [(''bogus'', JNum 1)] newParseState = Inl (Perr ?e)"
    by code_simp
  from ParseQuery_first_error_only[of example_parser ?q None None ?e "[(''bogus'', JNum 1)]" newParseState "Perr ?e" "[(''age'', JStr ''x'')]"] 1
  have 2: "and_map example_parser two_violations newParseState = Inl (Perr ?e)"
    by (simp add: two_violations_def)
  have 3: "0 \<le> qOffset ?q \<and> qLimit ?q = 0" by (simp add: empty_query_def)
  from ParseQuery_first_error_only[of example_parser ?q None None ?e] 2 3
  show ?thesis by simp
qed

text \<open>
  Claim C5 at an input on which parsing fails. The field \<^verbatim>\<open>id\<close> has no operator named by
  the empty string, so the filter \<^verbatim>\<open>{"id": {"": 1}}\<close> does not follow the schema. For this
  filter \<open>ParseQuery\<close> returns neither parameters nor a \<^verbatim>\<open>ParseError\<close>: the panic of the
  slice \<^verbatim>\<open>opName[1:]\<close> leaves the call, and so it leaves \<open>Parse\<close> for a buffer that decodes
  to this query.
\<close>

theorem failed_parse_returns_no_error:
  "(case schema example_parser ''id'' of Some f \<Rightarrow> has_op f [] | None \<Rightarrow> True) = False \<and>
   ParseQuery example_parser (empty_query\<lparr>qFilter := [(''id'', JObj [('''', JNum 1)])]\<rparr>) =
     Panicked SliceBoundsOutOfRange \<and>
   Parse (\<lambda>b. Inr (empty_query\<lparr>qFilter := [(''id'', JObj [('''', JNum 1)])]\<rparr>))
       example_parser ''buffer'' =
     Panicked SliceBoundsOutOfRange"
proof -
  have 1: "(case schema example_parser ''id'' of Some f \<Rightarrow> has_op f [] | None \<Rightarrow> True) = False"
    by code_simp
  have 2: "ParseQuery example_parser
             (empty_query\<lparr>qFilter := [(''id'', JObj [('''', JNum 1)])]\<rparr>) =
           Panicked SliceBoundsOutOfRange"
    by code_simp
  from 1 2 show ?thesis by (simp add: Parse_def)
qed

lemma field_loop_empty_name:
  "field_loop p f i (pre @ ('''', v) # post) ps =
     (case field_loop p f i pre ps of
        Inl e \<Rightarrow> Inl e
      | Inr ps' \<Rightarrow> Inl (Rerr SliceBoundsOutOfRange))"
proof (induction pre arbitrary: i ps)
  case Nil
  show ?case by (simp add: Let_def)
next
  case (Cons t pre)
  obtain n w where t: "t = (n, w)" by (cases t)
  show ?case unfolding t using Cons.IH
    by (auto simp add: Let_def split: sum.splits)
qed

lemma and_map_Cons:
  "and_map p ((k, v) # rest') ps =
     (case and_entry p k v ps of
        Inl e \<Rightarrow> Inl e
      | Inr ps2 \<Rightarrow> and_loop p 1 rest' ps2)"
  by (simp add: and_map_def and_loop_Cons sep_and_def del: and_loop.simps cong: sum.case_cong)

lemma and_entry_field:
  "schema p k = Some f \<Longrightarrow> Filterable (meta f) \<Longrightarrow> k \<noteq> op p OR \<Longrightarrow> k \<noteq> op p AND \<Longrightarrow>
   and_entry p k v ps = field p f v ps"
  by (simp add: and_entry_def expect_def)

text \<open>
  Claim C6 at the operator name \<^verbatim>\<open>""\<close>, which is in no operator set: the filter
  \<^verbatim>\<open>{"name": {"": "x"}}\<close> makes \<open>ParseQuery\<close> panic instead of returning an error.
\<close>

theorem unsupported_empty_operator_escapes:
  "(case schema example_parser ''name'' of Some f \<Rightarrow> has_op f [] | None \<Rightarrow> True) = False \<and>
   ParseQuery example_parser (empty_query\<lparr>qFilter := [(''name'', JObj [('''', JStr ''x'')])]\<rparr>) =
     Panicked SliceBoundsOutOfRange"
  by code_simp

section \<open>The equality shorthand\<close>

lemma field_scalar:
  "is_scalar v \<Longrightarrow> field p f v ps = emit p f EQ v ''invalid datatype for field %q'' ps"
  by (cases v) (auto simp add: field_def is_scalar_def Let_def split: sum.splits)


lemma emit_Inr:
  "emit p f o' v msg ps = Inr r \<longleftrightarrow>
   (\<exists>validate a. ValidateFn f = Some validate \<and> validate o' (meta f) v = None \<and>
      CovertFn f o' (meta f) v = Some a \<and>
      r = ps\<lparr>Buffer := Buffer ps @ fmtOp p f o', vals := vals ps @ [a]\<rparr>)"
  by (auto simp add: emit_def must_def Let_def WriteString_def append_value_def
      split: option.splits sum.splits)











section \<open>The sort clause\<close>

lemma default_dir:
  "GetDBDir p = default_GetDBDir \<Longrightarrow> r \<noteq> [] \<Longrightarrow>
   (if hd r = ASC \<or> hd r = DESC then
      (if GetDBDir p (hd r) \<noteq> [] then c @ '' '' @ GetDBDir p (hd r) else c)
    else c) = c @ dir_suffix r"
  by (auto simp add: default_GetDBDir_def sortDirection_def dir_suffix_def ASC_def DESC_def)

lemma sort_param_good:
  assumes "GetDBDir p = default_GetDBDir" and "good_ref p r"
  shows "sort_param p r = Inr (sort_column p r)"
proof -
  from assms(2) have ne: "r \<noteq> []" by (simp add: good_ref_def)
  from assms(2) obtain f where f: "schema p (strip_dir r) = Some f" and s: "Sortable (meta f)"
    by (auto simp add: good_ref_def sortable_ref_def split: option.splits)
  show ?thesis
  proof (cases "hd r = ASC \<or> hd r = DESC")
    case True
    with ne f s assms(1) show ?thesis
      by (auto simp add: sort_param_def expect_def Let_def strip_dir_def sort_column_def
          dir_suffix_def default_GetDBDir_def sortDirection_def ASC_def DESC_def)
  next
    case False
    with ne f s show ?thesis
      by (auto simp add: sort_param_def expect_def Let_def strip_dir_def sort_column_def
          dir_suffix_def)
  qed
qed

lemma sort_param_bad:
  assumes "\<not> good_ref p r"
  shows "sort_param p r = Inl (Perr (sort_error p r))"
proof (cases "r = []")
  case True
  then show ?thesis by (simp add: sort_param_def expect_def sort_error_def)
next
  case False
  with assms have ns: "\<not> sortable_ref p r" by (simp add: good_ref_def)
  show ?thesis
  proof (cases "schema p (strip_dir r)")
    case None
    with False show ?thesis
      by (auto simp add: sort_param_def expect_def Let_def strip_dir_def sort_error_def)
  next
    case (Some f)
    with ns have "\<not> Sortable (meta f)" by (simp add: sortable_ref_def)
    with False Some show ?thesis
      by (auto simp add: sort_param_def expect_def Let_def strip_dir_def sort_error_def)
  qed
qed

lemma sort_loop_good:
  assumes "GetDBDir p = default_GetDBDir"
  shows "\<forall>r \<in> set refs. good_ref p r \<Longrightarrow>
         sort_loop p refs acc = Inr (acc @ map (sort_column p) refs)"
  by (induction refs arbitrary: acc) (simp_all add: sort_param_good[OF assms])

lemma sort_loop_first_bad:
  assumes "GetDBDir p = default_GetDBDir"
    and "\<forall>r \<in> set pre. good_ref p r" and "\<not> good_ref p r"
  shows "sort_loop p (pre @ r # post) acc = Inl (Perr (sort_error p r))"
  using assms(2)
  by (induction pre arbitrary: acc) (simp_all add: sort_param_good[OF assms(1)] sort_param_bad[OF assms(3)])

lemma ParseQuery_sort_error:
  "0 \<le> qOffset q \<Longrightarrow> qLimit q = 0 \<or> 0 < qLimit q \<and> qLimit q \<le> LimitMaxValue p \<Longrightarrow>
   and_map p (qFilter q) newParseState = Inr ps \<Longrightarrow>
   sort_clause p (qSort q) = Inl (Perr e) \<Longrightarrow> ParseQuery p q = Returned None (Some e)"
  by (auto simp add: ParseQuery_def ParseQuery_body_def expect_def Let_def)

lemma ParseQuery_sort_ok:
  "ParseQuery p q = Returned (Some pr) err \<Longrightarrow> qSort q \<noteq> [] \<Longrightarrow>
   sort_clause p (qSort q) = Inr s \<Longrightarrow> s \<noteq> [] \<Longrightarrow> Sort pr = s"
  by (auto simp add: ParseQuery_def ParseQuery_body_def expect_def Let_def split: sum.splits panic.splits if_splits)


lemma example_parser_dir: "GetDBDir example_parser = default_GetDBDir"
  by (simp add: example_parser_def example_config_def parseField_def GetSupportedOps_def
      example_meta_def Let_def)

text \<open>
  Claim C9, as the code has it, for the default rendering of directions. When every
  reference is not empty and names, without its mark, a sortable field, the sort clause is
  the list of their columns in the given order, joined by a comma and a space, each column
  with the field separator rewritten and with \<^verbatim>\<open> desc\<close> after a \<^verbatim>\<open>-\<close> mark,
  \<^verbatim>\<open> asc\<close> after a \<^verbatim>\<open>+\<close> mark and nothing without a mark. The first reference that is
  empty, or names a missing or a non-sortable field, makes the clause, and with it the
  parse, fail with the error of that reference, which names the field.
\<close>

theorem sort_clause_lists_columns:
  assumes "GetDBDir p = default_GetDBDir"
  shows "((\<forall>r \<in> set refs. good_ref p r) \<longrightarrow>
            sort_clause p refs = Inr (Join (map (sort_column p) refs) '', '')) \<and>
         ((\<forall>r \<in> set pre. good_ref p r) \<and> \<not> good_ref p r \<longrightarrow>
            sort_clause p (pre @ r # post) = Inl (Perr (sort_error p r))) \<and>
         (0 \<le> qOffset q \<and> (qLimit q = 0 \<or> 0 < qLimit q \<and> qLimit q \<le> LimitMaxValue p) \<and>
          and_map p (qFilter q) newParseState = Inr ps \<and>
          qSort q = pre @ r # post \<and> (\<forall>r \<in> set pre. good_ref p r) \<and> \<not> good_ref p r \<longrightarrow>
            ParseQuery p q = Returned None (Some (sort_error p r)))"
proof (intro conjI impI)
  assume "\<forall>r \<in> set refs. good_ref p r"
  then show "sort_clause p refs = Inr (Join (map (sort_column p) refs) '', '')"
    by (simp add: sort_clause_def sort_loop_good[OF assms])
next
  assume "(\<forall>r \<in> set pre. good_ref p r) \<and> \<not> good_ref p r"
  then show "sort_clause p (pre @ r # post) = Inl (Perr (sort_error p r))"
    by (simp add: sort_clause_def sort_loop_first_bad[OF assms])
next
  assume a: "0 \<le> qOffset q \<and> (qLimit q = 0 \<or> 0 < qLimit q \<and> qLimit q \<le> LimitMaxValue p) \<and>
          and_map p (qFilter q) newParseState = Inr ps \<and>
          qSort q = pre @ r # post \<and> (\<forall>r \<in> set pre. good_ref p r) \<and> \<not> good_ref p r"
  then have "sort_clause p (qSort q) = Inl (Perr (sort_error p r))"
    by (simp add: sort_clause_def sort_loop_first_bad[OF assms])
  with a show "ParseQuery p q = Returned None (Some (sort_error p r))"
    by (auto intro: ParseQuery_sort_error)
qed

theorem sort_clause_witness:
  "sort_clause example_parser [''address.name'', ''-age'', ''+id''] =
     Inr ''address_name, age desc, id asc'' \<and>
   sort_clause example_parser [''age'', ''-nope'', ''name''] =
     Inl (Perr (ParseError ''unrecognized key %q for sorting'' [FStr ''nope''])) \<and>
   ParseQuery example_parser (empty_query\<lparr>qSort := [''-id'', ''+name'']\<rparr>) =
     Returned None (Some (ParseError ''field %q is not sortable'' [FStr ''name'']))"
proof -
  have g: "\<forall>r \<in> set [''address.name'', ''-age'', ''+id'']. good_ref example_parser r"
    by code_simp
  have j: "Join (map (sort_column example_parser) [''address.name'', ''-age'', ''+id'']) '', '' =
           ''address_name, age desc, id asc''"
    by code_simp
  have 1: "sort_clause example_parser [''address.name'', ''-age'', ''+id''] =
     Inr ''address_name, age desc, id asc''"
    using sort_clause_lists_columns[OF example_parser_dir, of "[''address.name'', ''-age'', ''+id'']"] g j
    by simp
  have g2: "(\<forall>r \<in> set [''age'']. good_ref example_parser r) \<and> \<not> good_ref example_parser ''-nope''"
    by code_simp
  have e2: "sort_error example_parser ''-nope'' = ParseError ''unrecognized key %q for sorting'' [FStr ''nope'']"
    by code_simp
  have 2: "sort_clause example_parser [''age'', ''-nope'', ''name''] =
     Inl (Perr (ParseError ''unrecognized key %q for sorting'' [FStr ''nope'']))"
    using sort_clause_lists_columns[OF example_parser_dir, of _ "[''age'']" "''-nope''" "[''name'']"] g2 e2
    by simp
  let ?q = "empty_query\<lparr>qSort := [''-id'', ''+name'']\<rparr>"
  have g3: "(\<forall>r \<in> set [''-id'']. good_ref example_parser r) \<and> \<not> good_ref example_parser ''+name''"
    by code_simp
  have e3: "sort_error example_parser ''+name'' = ParseError ''field %q is not sortable'' [FStr ''name'']"
    by code_simp
  have q3: "0 \<le> qOffset ?q \<and> qLimit ?q = 0 \<and>
        and_map example_parser (qFilter ?q) newParseState = Inr newParseState \<and>
        qSort ?q = [''-id''] @ ''+name'' # []"
    by (simp add: empty_query_def and_map_def)
  have 3: "ParseQuery example_parser ?q =
     Returned None (Some (ParseError ''field %q is not sortable'' [FStr ''name'']))"
    using sort_clause_lists_columns[OF example_parser_dir, of _ "[''-id'']" "''+name''" "[]" ?q newParseState] g3 e3 q3
    by simp
  from 1 2 3 show ?thesis by simp
qed

text \<open>
  Claim C9 as stated fails for a schema with a sortable field of the empty name: the empty
  reference names that field, and the sort clause is refused.
\<close>

theorem sort_empty_name_counterexample:
  "sortable_ref blank_parser [] \<and>
   sort_clause blank_parser [[]] = Inl (Perr (ParseError ''sort field can not be empty'' [])) \<and>
   ParseQuery blank_parser (empty_query\<lparr>qSort := [[]]\<rparr>) =
     Returned None (Some (ParseError ''sort field can not be empty'' []))"
  by code_simp

section \<open>Parentheses of a group\<close>

lemma append_state_new: "append_state ps newParseState = ps" "append_state newParseState r = r"
  by (cases ps, simp add: append_state_def newParseState_def)
     (cases r, simp add: append_state_def newParseState_def)

lemma append_state_assoc: "append_state (append_state a b) c = append_state a (append_state b c)"
  by (simp add: append_state_def)

lemma WriteString_append: "WriteString s ps = append_state ps (WriteString s newParseState)"
  by (cases ps) (simp add: WriteString_def append_state_def newParseState_def)

lemma WriteByte_append: "WriteByte c ps = append_state ps (WriteByte c newParseState)"
  by (cases ps) (simp add: WriteByte_def append_state_def newParseState_def)

lemma append_value_append: "append_value a ps = append_state ps (append_value a newParseState)"
  by (cases ps) (simp add: append_value_def append_state_def newParseState_def)

lemma framedI: "(\<And>ps. w ps = map_sum id (append_state ps) (w newParseState)) \<Longrightarrow> framed w"
  unfolding framed_def by blast

lemma framedD: "framed w \<Longrightarrow> w ps = map_sum id (append_state ps) (w newParseState)"
  unfolding framed_def by blast

lemma framed_bind:
  assumes "framed w" and "framed g"
  shows "framed (\<lambda>ps. case w ps of Inl e \<Rightarrow> Inl e | Inr ps2 \<Rightarrow> g ps2)"
proof (rule framedI)
  fix ps
  show "(case w ps of Inl e \<Rightarrow> Inl e | Inr ps2 \<Rightarrow> g ps2) =
        map_sum id (append_state ps) (case w newParseState of Inl e \<Rightarrow> Inl e | Inr ps2 \<Rightarrow> g ps2)"
  proof (cases "w newParseState")
    case (Inl e)
    then show ?thesis using framedD[OF assms(1), of ps] by simp
  next
    case (Inr r)
    then have "w ps = Inr (append_state ps r)" using framedD[OF assms(1), of ps] by simp
    moreover have "g (append_state ps r) = map_sum id (append_state (append_state ps r)) (g newParseState)"
      by (rule framedD[OF assms(2)])
    moreover have "g r = map_sum id (append_state r) (g newParseState)"
      by (rule framedD[OF assms(2)])
    ultimately show ?thesis using Inr
      by (cases "g newParseState") (simp_all add: append_state_assoc)
  qed
qed

lemma framed_pre:
  assumes "framed w"
  shows "framed (\<lambda>ps. w (append_state ps a))"
proof (rule framedI)
  fix ps
  show "w (append_state ps a) = map_sum id (append_state ps) (w (append_state newParseState a))"
    using framedD[OF assms, of "append_state ps a"] framedD[OF assms, of a]
    by (cases "w newParseState") (simp_all add: append_state_assoc append_state_new)
qed

lemma framed_post:
  assumes "framed w"
  shows "framed (\<lambda>ps. case w ps of Inl e \<Rightarrow> Inl e | Inr ps2 \<Rightarrow> Inr (append_state ps2 a))"
proof (rule framedI)
  fix ps
  show "(case w ps of Inl e \<Rightarrow> Inl e | Inr ps2 \<Rightarrow> Inr (append_state ps2 a)) =
     map_sum id (append_state ps) (case w newParseState of Inl e \<Rightarrow> Inl e | Inr ps2 \<Rightarrow> Inr (append_state ps2 a))"
    using framedD[OF assms, of ps]
    by (cases "w newParseState") (simp_all add: append_state_assoc)
qed

lemma framed_Inl: "framed (\<lambda>ps. Inl e)"
  by (simp add: framed_def)

lemma framed_Inr: "framed Inr"
  by (simp add: framed_def append_state_new)

lemma framed_emit: "framed (emit p f o' v msg)"
  by (rule framedI)
     (auto simp add: emit_def Let_def WriteString_def append_value_def append_state_def
        newParseState_def split: option.splits sum.splits)

lemma sep_and_append: "sep_and i ps = append_state ps (sep_and i newParseState)"
  using WriteString_append[of "'' AND ''" ps] by (simp add: sep_and_def append_state_new)

lemma sep_rel_append: "sep_rel p o' i ps = append_state ps (sep_rel p o' i newParseState)"
proof (cases "i > 0")
  case False
  then show ?thesis by (simp add: sep_rel_def append_state_new)
next
  case True
  have "WriteByte CHR '' '' (WriteString (GetDBOp p o' None) (WriteByte CHR '' '' ps)) =
        append_state ps
          (WriteByte CHR '' '' (WriteString (GetDBOp p o' None) (WriteByte CHR '' '' newParseState)))"
    by (cases ps)
       (simp add: WriteByte_def WriteString_def append_state_def newParseState_def)
  with True show ?thesis by (simp add: sep_rel_def)
qed

lemma framed_after:
  assumes "framed w" and "\<And>ps. g ps = append_state ps (g newParseState)"
  shows "framed (\<lambda>ps. w (g ps))"
proof -
  have "(\<lambda>ps. w (g ps)) = (\<lambda>ps. w (append_state ps (g newParseState)))"
    by (simp add: assms(2)[symmetric])
  then show ?thesis using framed_pre[OF assms(1), of "g newParseState"] by simp
qed

lemma framed_then:
  assumes "framed w" and "\<And>ps. g ps = append_state ps (g newParseState)"
  shows "framed (\<lambda>ps. case w ps of Inl e \<Rightarrow> Inl e | Inr ps2 \<Rightarrow> Inr (g ps2))"
proof -
  have "(\<lambda>ps. case w ps of Inl e \<Rightarrow> Inl e | Inr ps2 \<Rightarrow> Inr (g ps2)) =
        (\<lambda>ps. case w ps of Inl e \<Rightarrow> Inl e | Inr ps2 \<Rightarrow> Inr (append_state ps2 (g newParseState)))"
  proof (rule ext)
    fix ps
    show "(case w ps of Inl e \<Rightarrow> Inl e | Inr ps2 \<Rightarrow> Inr (g ps2)) =
          (case w ps of Inl e \<Rightarrow> Inl e | Inr ps2 \<Rightarrow> Inr (append_state ps2 (g newParseState)))"
      by (cases "w ps") (simp_all add: assms(2)[symmetric])
  qed
  then show ?thesis using framed_post[OF assms(1), of "g newParseState"] by simp
qed

lemma field_loop_Cons_fun:
  "field_loop p f i ((n, v) # rest) =
     (\<lambda>ps. if n = [] then Inl (Rerr SliceBoundsOutOfRange)
           else
             (case expect (has_op f n) ''can not apply op %q on field %q''
                     [FStr n, FStr (Name (meta f))] of
                Inl e \<Rightarrow> Inl e
              | Inr u \<Rightarrow>
                  (case emit p f (tl n) v ''invalid datatype or format for field %q'' (sep_and i ps) of
                     Inl e \<Rightarrow> Inl e
                   | Inr ps2 \<Rightarrow> field_loop p f (i + 1) rest ps2)))"
  by (rule ext) (simp add: Let_def sep_and_def cong: sum.case_cong)

lemma framed_field_loop: "framed (field_loop p f i ts)"
proof (induction ts arbitrary: i)
  case Nil
  have "field_loop p f i [] = Inr" by (rule ext) simp
  then show ?case by (simp add: framed_Inr)
next
  case (Cons t ts)
  obtain n v where t: "t = (n, v)" by (cases t)
  show ?case
  proof (cases "n = [] \<or> \<not> has_op f n")
    case True
    then have "field_loop p f i (t # ts) = (\<lambda>ps. Inl (if n = [] then Rerr SliceBoundsOutOfRange
        else Perr (ParseError ''can not apply op %q on field %q'' [FStr n, FStr (Name (meta f))])))"
      unfolding t field_loop_Cons_fun by (auto simp add: expect_def)
    then show ?thesis by (simp add: framed_Inl)
  next
    case False
    then have "field_loop p f i (t # ts) =
       (\<lambda>ps. case emit p f (tl n) v ''invalid datatype or format for field %q'' (sep_and i ps) of
                     Inl e \<Rightarrow> Inl e
                   | Inr ps2 \<Rightarrow> field_loop p f (i + 1) ts ps2)"
      unfolding t field_loop_Cons_fun by (auto simp add: expect_def)
    moreover have "framed (\<lambda>ps. emit p f (tl n) v ''invalid datatype or format for field %q'' (sep_and i ps))"
      by (rule framed_after[OF framed_emit sep_and_append])
    ultimately show ?thesis using framed_bind[OF _ Cons.IH[of "i + 1"]] by simp
  qed
qed

lemma paren_open_append: "paren_open n ps = append_state ps (paren_open n newParseState)"
  using WriteByte_append[of "CHR ''(''" ps] by (simp add: paren_open_def append_state_new)

lemma paren_close_append: "paren_close n ps = append_state ps (paren_close n newParseState)"
  using WriteByte_append[of "CHR '')''" ps] by (simp add: paren_close_def append_state_new)

lemma field_object_fun:
  "field p f (JObj terms) =
     (\<lambda>ps. case field_loop p f 0 terms (paren_open (length terms) ps) of
             Inl e \<Rightarrow> Inl e
           | Inr ps2 \<Rightarrow> Inr (paren_close (length terms) ps2))"
  by (rule ext) (simp add: field_def Let_def paren_open_def paren_close_def cong: sum.case_cong)

lemma framed_field: "framed (field p f v)"
proof (cases "is_scalar v")
  case True
  then have "field p f v = emit p f EQ v ''invalid datatype for field %q''"
    by (auto simp add: field_scalar)
  then show ?thesis by (simp add: framed_emit)
next
  case False
  then obtain terms where v: "v = JObj terms" by (cases v) (simp_all add: is_scalar_def)
  have "framed (\<lambda>ps. field_loop p f 0 terms (paren_open (length terms) ps))"
    by (rule framed_after[OF framed_field_loop paren_open_append])
  from framed_then[OF this paren_close_append] show ?thesis
    unfolding v field_object_fun .
qed

lemma and_loop_Cons_fun:
  "and_loop p i ((k, v) # rest) =
     (\<lambda>ps. case and_entry p k v (sep_and i ps) of
             Inl e \<Rightarrow> Inl e
           | Inr ps2 \<Rightarrow> and_loop p (i + 1) rest ps2)"
  by (rule ext) (rule and_loop_Cons)

lemma relOp_loop_Cons_fun:
  "relOp_loop p o' i (t # rest) =
     (\<lambda>ps. case relOp_term p o' t (sep_rel p o' i ps) of
             Inl e \<Rightarrow> Inl e
           | Inr ps2 \<Rightarrow> relOp_loop p o' (i + 1) rest ps2)"
  by (rule ext) (rule relOp_loop_Cons)

lemma relOp_fun:
  "relOp p o' terms =
     (\<lambda>ps. case relOp_loop p o' 0 terms (paren_open (length terms) ps) of
             Inl e \<Rightarrow> Inl e
           | Inr ps2 \<Rightarrow> Inr (paren_close (length terms) ps2))"
  by (rule ext) (simp add: Let_def paren_open_def paren_close_def cong: sum.case_cong)

lemma framed_and_loop_list:
  assumes "\<And>k v. (k, v) \<in> set kvs \<Longrightarrow> framed (and_entry p k v)"
  shows "framed (and_loop p i kvs)"
  using assms
proof (induction kvs arbitrary: i)
  case Nil
  have "and_loop p i [] = Inr" by (rule ext) simp
  then show ?case by (simp add: framed_Inr)
next
  case (Cons kv kvs)
  obtain k v where kv: "kv = (k, v)" by (cases kv)
  have "framed (and_entry p k v)" using Cons.prems kv by simp
  then have 1: "framed (\<lambda>ps. and_entry p k v (sep_and i ps))"
    by (rule framed_after[OF _ sep_and_append])
  have 2: "framed (and_loop p (i + 1) kvs)" using Cons.IH Cons.prems by simp
  show ?case unfolding kv and_loop_Cons_fun by (rule framed_bind[OF 1 2])
qed

lemma framed_relOp_loop_list:
  assumes "\<And>t. t \<in> set ts \<Longrightarrow> framed (relOp_term p o' t)"
  shows "framed (relOp_loop p o' i ts)"
  using assms
proof (induction ts arbitrary: i)
  case Nil
  have "relOp_loop p o' i [] = Inr" by (rule ext) simp
  then show ?case by (simp add: framed_Inr)
next
  case (Cons t ts)
  have "framed (relOp_term p o' t)" using Cons.prems by simp
  then have 1: "framed (\<lambda>ps. relOp_term p o' t (sep_rel p o' i ps))"
    by (rule framed_after[OF _ sep_rel_append])
  have 2: "framed (relOp_loop p o' (i + 1) ts)" using Cons.IH Cons.prems by simp
  show ?case unfolding relOp_loop_Cons_fun by (rule framed_bind[OF 1 2])
qed

lemma framed_relOp:
  assumes "framed (relOp_loop p o' 0 ts)"
  shows "framed (relOp p o' ts)"
proof -
  have "framed (\<lambda>ps. relOp_loop p o' 0 ts (paren_open (length ts) ps))"
    by (rule framed_after[OF assms paren_open_append])
  from framed_then[OF this paren_close_append] show ?thesis unfolding relOp_fun .
qed

lemma framed_and_entry:
  assumes "\<And>ts o'. v = JArr ts \<Longrightarrow> framed (relOp p o' ts)"
  shows "framed (and_entry p k v)"
proof -
  have arr: "framed (\<lambda>ps. case v of JArr terms \<Rightarrow> relOp p o' terms ps | _ \<Rightarrow> Inl e)" for o' e
  proof (cases v)
    case (JArr ts)
    then show ?thesis using assms[of ts o'] by (simp del: relOp.simps)
  qed (simp_all add: framed_Inl)
  have fld: "framed (\<lambda>ps. case schema p k of
           Some f \<Rightarrow>
             (case expect (Filterable (meta f)) ''field %q is not filterable'' [FStr k] of
                Inl e \<Rightarrow> Inl e
              | Inr u \<Rightarrow> field p f v ps)
         | None \<Rightarrow> Inl (Perr (ParseError ''unrecognized key %q for filtering'' [FStr k])))"
  proof (cases "schema p k")
    case None
    then show ?thesis by (simp add: framed_Inl)
  next
    case (Some f)
    then show ?thesis
      by (cases "Filterable (meta f)") (simp_all add: expect_def framed_Inl framed_field)
  qed
  have "and_entry p k v =
     (\<lambda>ps. if k = op p OR then
             (case v of JArr terms \<Rightarrow> relOp p OR terms ps
              | _ \<Rightarrow> Inl (Perr (ParseError ''$or must be type array'' [])))
           else if k = op p AND then
             (case v of JArr terms \<Rightarrow> relOp p AND terms ps
              | _ \<Rightarrow> Inl (Perr (ParseError ''$and must be type array'' [])))
           else
             (case schema p k of
           Some f \<Rightarrow>
             (case expect (Filterable (meta f)) ''field %q is not filterable'' [FStr k] of
                Inl e \<Rightarrow> Inl e
              | Inr u \<Rightarrow> field p f v ps)
         | None \<Rightarrow> Inl (Perr (ParseError ''unrecognized key %q for filtering'' [FStr k]))))"
    by (rule ext) (simp add: and_entry_def)
  then show ?thesis using arr[where o'=OR] arr[where o'=AND] fld
    by (cases "k = op p OR"; cases "k = op p AND") (simp_all del: relOp.simps)
qed

lemma framed_relOp_term:
  assumes "\<And>mt. t = JObj mt \<Longrightarrow> framed (and_loop p 0 mt)"
  shows "framed (relOp_term p o' t)"
proof (cases t)
  case (JObj mt)
  have "relOp_term p o' (JObj mt) = and_loop p 0 mt"
    by (rule ext) (simp add: relOp_term_def and_map_def)
  then show ?thesis using assms[of mt] JObj by simp
qed (simp_all add: relOp_term_def[abs_def] framed_Inl)

lemma framed_json:
  "(\<forall>kvs. v = JObj kvs \<longrightarrow> (\<forall>i. framed (and_loop p i kvs))) \<and>
   (\<forall>ts. v = JArr ts \<longrightarrow> (\<forall>o' i. framed (relOp_loop p o' i ts)))"
proof (induction v)
  case (JArr ts)
  have "framed (relOp_loop p o' i ts)" for o' i
  proof (rule framed_relOp_loop_list)
    fix t assume "t \<in> set ts"
    from JArr[OF this] show "framed (relOp_term p o' t)"
      by (intro framed_relOp_term) simp
  qed
  then show ?case by simp
next
  case (JObj kvs)
  have "framed (and_loop p i kvs)" for i
  proof (rule framed_and_loop_list)
    fix k v assume "(k, v) \<in> set kvs"
    then have ih: "\<forall>ts. v = JArr ts \<longrightarrow> (\<forall>o' i. framed (relOp_loop p o' i ts))"
      using JObj[of "(k, v)" v] by simp
    show "framed (and_entry p k v)"
      by (rule framed_and_entry) (simp add: ih framed_relOp)
  qed
  then show ?case by simp
qed simp_all

lemma framed_and_loop: "framed (and_loop p i kvs)"
  using framed_json[of "JObj kvs" p] by simp

lemma framed_and_map: "framed (and_map p kvs)"
  using framed_and_loop[of p 0 kvs] by (simp add: and_map_def[abs_def])

lemma framed_relOp_loop: "framed (relOp_loop p o' i ts)"
  using framed_json[of "JArr ts" p] by simp

lemma framed_relOp_any: "framed (relOp p o' ts)"
  by (rule framed_relOp[OF framed_relOp_loop])

lemma framed_relOp_term_any: "framed (relOp_term p o' t)"
  by (rule framed_relOp_term) (rule framed_and_loop)

lemma Join_concat: "Join (x # xs) sep = x @ concat (map (\<lambda>y. sep @ y) xs)"
  by (induction xs arbitrary: x) simp_all

lemma sep_rel_pos:
  "i > 0 \<Longrightarrow> sep_rel p o' i ps = append_state ps \<lparr>Buffer = rel_sep p o', vals = []\<rparr>"
  by (cases ps) (simp add: sep_rel_def rel_sep_def WriteByte_def WriteString_def append_state_def)

lemma relOp_term_obj: "relOp_term p o' (JObj d) ps = map_sum id (append_state ps) (and_map p d newParseState)"
  using framedD[OF framed_and_map, of p d ps] by (simp add: relOp_term_def)

lemma relOp_loop_rest:
  "i > 0 \<Longrightarrow>
   relOp_loop p o' i (map JObj docs) ps =
     (case compiled p docs of
        Inl e \<Rightarrow> Inl e
      | Inr rs \<Rightarrow>
          Inr (append_state ps
                 \<lparr>Buffer = concat (map (\<lambda>y. rel_sep p o' @ y) (map Buffer rs)),
                  vals = concat (map vals rs)\<rparr>))"
proof (induction docs arbitrary: i ps)
  case Nil
  show ?case by (cases ps) (simp add: append_state_def)
next
  case (Cons d ds)
  show ?case
  proof (cases "and_map p d newParseState")
    case (Inl e)
    then show ?thesis
      by (simp add: relOp_loop_Cons relOp_term_obj del: relOp_loop.simps)
  next
    case (Inr r)
    have "relOp_loop p o' i (map JObj (d # ds)) ps =
          relOp_loop p o' (i + 1) (map JObj ds) (append_state (sep_rel p o' i ps) r)"
      using Inr by (simp add: relOp_loop_Cons relOp_term_obj del: relOp_loop.simps)
    also have "\<dots> = (case compiled p ds of
        Inl e \<Rightarrow> Inl e
      | Inr rs \<Rightarrow>
          Inr (append_state (append_state (sep_rel p o' i ps) r)
                 \<lparr>Buffer = concat (map (\<lambda>y. rel_sep p o' @ y) (map Buffer rs)),
                  vals = concat (map vals rs)\<rparr>))"
      by (rule Cons.IH) simp
    finally show ?thesis using Inr Cons.prems
      by (cases "compiled p ds") (simp_all add: sep_rel_pos append_state_def)
  qed
qed

lemma relOp_loop_all:
  "relOp_loop p o' 0 (map JObj docs) ps =
     (case compiled p docs of
        Inl e \<Rightarrow> Inl e
      | Inr rs \<Rightarrow>
          Inr (append_state ps
                 \<lparr>Buffer = Join (map Buffer rs) (rel_sep p o'), vals = concat (map vals rs)\<rparr>))"
proof (cases docs)
  case Nil
  then show ?thesis by (cases ps) (simp add: append_state_def)
next
  case (Cons d ds)
  show ?thesis
  proof (cases "and_map p d newParseState")
    case (Inl e)
    then show ?thesis unfolding Cons
      by (simp add: relOp_loop_Cons relOp_term_obj del: relOp_loop.simps)
  next
    case (Inr r)
    have "relOp_loop p o' 0 (map JObj (d # ds)) ps =
          relOp_loop p o' (0 + 1) (map JObj ds) (append_state (sep_rel p o' 0 ps) r)"
      using Inr by (simp add: relOp_loop_Cons relOp_term_obj del: relOp_loop.simps)
    also have "\<dots> = (case compiled p ds of
        Inl e \<Rightarrow> Inl e
      | Inr rs \<Rightarrow>
          Inr (append_state (append_state (sep_rel p o' 0 ps) r)
                 \<lparr>Buffer = concat (map (\<lambda>y. rel_sep p o' @ y) (map Buffer rs)),
                  vals = concat (map vals rs)\<rparr>))"
      by (rule relOp_loop_rest) simp
    finally show ?thesis using Inr unfolding Cons
      by (cases "compiled p ds") (simp_all add: sep_rel_def append_state_def Join_concat del: Join.simps)
  qed
qed

lemma compiled_length: "compiled p docs = Inr rs \<Longrightarrow> length rs = length docs"
  by (induction docs arbitrary: rs) (auto split: sum.splits)

lemma relOp_single: "relOp p o' [JObj d] ps = and_map p d ps"
  by (cases "and_map p d ps") (simp_all add: and_map_def)

lemma relOp_group:
  assumes "length docs > 1"
  shows "relOp p o' (map JObj docs) ps =
     (case compiled p docs of
        Inl e \<Rightarrow> Inl e
      | Inr rs \<Rightarrow> Inr (append_state ps (group p o' rs)))"
proof -
  have "relOp p o' (map JObj docs) ps =
        (case relOp_loop p o' 0 (map JObj docs) (WriteByte CHR ''('' ps) of
           Inl e \<Rightarrow> Inl e
         | Inr ps2 \<Rightarrow> Inr (WriteByte CHR '')'' ps2))"
    using assms by (simp add: Let_def cong: sum.case_cong)
  then show ?thesis
    by (cases "compiled p docs"; cases ps)
       (simp_all add: relOp_loop_all group_def WriteByte_def append_state_def del: relOp.simps)
qed

lemma op_AND_not_OR: "op p AND \<noteq> op p OR"
  by (simp add: op_def AND_def OR_def)

text \<open>
  Claim C3. For an array of one document under \<^verbatim>\<open>$or\<close> or \<^verbatim>\<open>$and\<close>, \<open>relOp\<close> does
  what compiling the document alone does: it adds no parentheses. For an array of two or
  more documents it fails with the first document that fails, and otherwise appends one
  opening parenthesis, the texts of the documents, each compiled alone, joined by the
  rendering of the operator between spaces, and one closing parenthesis; the values are
  appended in the same order. What a document appends does not depend on the state.
\<close>

theorem relOp_parentheses:
  "relOp p o' [JObj d] ps = and_map p d ps \<and>
   (length docs > 1 \<longrightarrow>
      relOp p o' (map JObj docs) ps =
        (case compiled p docs of
           Inl e \<Rightarrow> Inl e
         | Inr rs \<Rightarrow> Inr (append_state ps (group p o' rs)))) \<and>
   and_map p d ps = map_sum id (append_state ps) (and_map p d newParseState) \<and>
   and_entry p (op p OR) (JArr ts) ps = relOp p OR ts ps \<and>
   and_entry p (op p AND) (JArr ts) ps = relOp p AND ts ps"
  using relOp_single[of p o' d ps] relOp_group[of docs p o' ps]
    framedD[OF framed_and_map, of p d ps] op_AND_not_OR[of p]
  by (simp add: and_entry_def del: relOp.simps)

theorem relOp_parentheses_witness:
  "relOp example_parser OR (map JObj [neq_doc 10, neq_doc 20]) newParseState =
     Inr \<lparr>Buffer = ''(age <> ? OR age <> ?)'', vals = [AInt 10, AInt 20]\<rparr> \<and>
   relOp example_parser OR [JObj (neq_doc 10)] newParseState =
     Inr \<lparr>Buffer = ''age <> ?'', vals = [AInt 10]\<rparr>"
proof -
  have c: "compiled example_parser [neq_doc 10, neq_doc 20] =
           Inr [\<lparr>Buffer = ''age <> ?'', vals = [AInt 10]\<rparr>, \<lparr>Buffer = ''age <> ?'', vals = [AInt 20]\<rparr>]"
    by code_simp
  have g: "append_state newParseState (group example_parser OR
             [\<lparr>Buffer = ''age <> ?'', vals = [AInt 10]\<rparr>, \<lparr>Buffer = ''age <> ?'', vals = [AInt 20]\<rparr>]) =
           \<lparr>Buffer = ''(age <> ? OR age <> ?)'', vals = [AInt 10, AInt 20]\<rparr>"
    by code_simp
  have a: "and_map example_parser (neq_doc 10) newParseState = Inr \<lparr>Buffer = ''age <> ?'', vals = [AInt 10]\<rparr>"
    by code_simp
  from relOp_parentheses[of example_parser OR "neq_doc 10" newParseState "[neq_doc 10, neq_doc 20]"] c g a
  show ?thesis by (simp del: relOp.simps)
qed

section \<open>Placeholders and arguments\<close>

lemma length_holes_acc: "length (holes_acc acc s) = count_q s"
  by (induction s arbitrary: acc) (simp_all add: count_q_def)

lemma holes_acc_append:
  "holes_acc acc (a @ b) = holes_acc acc a @ holes_acc (last_acc acc a) b"
  by (induction a arbitrary: acc) simp_all

lemma holes_acc_noq: "noq a \<Longrightarrow> holes_acc acc a = [] \<and> last_acc acc a = acc @ a"
  by (induction a arbitrary: acc) (auto simp add: noq_def)

lemma holes_acc_extend:
  assumes "list_all2 (\<lambda>h x. suffix (g x) h) (holes_acc acc s) xs"
  shows "list_all2 (\<lambda>h x. suffix (g x) h) (holes_acc (t @ acc) s) xs"
  using assms
proof (induction s arbitrary: acc xs)
  case Nil
  then show ?case by simp
next
  case (Cons c cs)
  show ?case
  proof (cases "c = CHR ''?''")
    case True
    with Cons.prems show ?thesis
      by (auto simp add: list_all2_Cons1 suffix_append)
  next
    case False
    with Cons.prems Cons.IH[of "acc @ [c]" xs] show ?thesis by simp
  qed
qed

lemma holes_all2_append:
  assumes "list_all2 (\<lambda>h x. suffix (g x) h) (holes a) xs"
    and "list_all2 (\<lambda>h x. suffix (g x) h) (holes b) ys"
  shows "list_all2 (\<lambda>h x. suffix (g x) h) (holes (a @ b)) (xs @ ys)"
proof -
  have "list_all2 (\<lambda>h x. suffix (g x) h) (holes_acc (last_acc [] a @ []) b) ys"
    using assms(2) unfolding holes_def by (rule holes_acc_extend)
  then show ?thesis using assms(1)
    by (simp add: holes_def holes_acc_append list_all2_appendI)
qed

lemma aligned_new: "aligned p [] newParseState"
  by (simp add: aligned_def holes_def newParseState_def)

lemma aligned_append:
  "aligned p xs a \<Longrightarrow> aligned p ys b \<Longrightarrow> aligned p (xs @ ys) (append_state a b)"
  by (simp add: aligned_def append_state_def holes_all2_append)

lemma aligned_glue: "noq (Buffer a) \<Longrightarrow> vals a = [] \<Longrightarrow> aligned p [] a"
  by (simp add: aligned_def holes_def holes_acc_noq)

lemma aligned_emit:
  assumes "emit p f o' v msg newParseState = Inr r" and "noq (pred_text p (f, o', v))"
  shows "aligned p [(f, o', v)] r"
proof -
  from assms(1) obtain a where a: "CovertFn f o' (meta f) v = Some a"
    and r: "r = newParseState\<lparr>Buffer := Buffer newParseState @ fmtOp p f o', vals := vals newParseState @ [a]\<rparr>"
    by (auto simp add: emit_Inr)
  have "fmtOp p f o' = pred_text p (f, o', v) @ ''?''"
    by (simp add: fmtOp_def pred_text_def)
  then have "holes (Buffer r) = [pred_text p (f, o', v)]"
    using assms(2) r
    by (simp add: holes_def holes_acc_append holes_acc_noq newParseState_def)
  then show ?thesis using a r by (simp add: aligned_def pred_arg_def newParseState_def)
qed

lemma preds_and_Cons: "preds_and p ((k, v) # rest) = preds_entry p k v @ preds_and p rest"
  by (simp add: preds_entry_def)

lemma preds_rel_Cons: "preds_rel p (t # rest) = preds_term p t @ preds_rel p rest"
  by (simp add: preds_term_def)

lemma plain_append: "plain p (xs @ ys) \<longleftrightarrow> plain p xs \<and> plain p ys"
  by (simp add: plain_def)

lemma framed_Inr_D:
  assumes "framed w" and "w a = Inr r"
  shows "\<exists>d. w newParseState = Inr d \<and> r = append_state a d"
  using framedD[OF assms(1), of a] assms(2) by (cases "w newParseState") auto

lemma bind_decompose:
  assumes "framed w" and "framed g"
    and "(case w a of Inl e \<Rightarrow> Inl e | Inr ps2 \<Rightarrow> g ps2) = Inr r"
  shows "\<exists>r1 r2. w newParseState = Inr r1 \<and> g newParseState = Inr r2 \<and>
                 r = append_state (append_state a r1) r2"
proof -
  from assms(3) obtain ps2 where 1: "w a = Inr ps2" and 2: "g ps2 = Inr r"
    by (cases "w a") auto
  from framed_Inr_D[OF assms(1) 1] obtain r1 where "w newParseState = Inr r1" "ps2 = append_state a r1"
    by blast
  moreover from framed_Inr_D[OF assms(2) 2] obtain r2 where "g newParseState = Inr r2" "r = append_state ps2 r2"
    by blast
  ultimately show ?thesis by blast
qed

lemma aligned_sep_and: "aligned p [] (sep_and i newParseState)"
  by (rule aligned_glue) (simp_all add: sep_and_def WriteString_def newParseState_def noq_def)

lemma aligned_paren_open: "aligned p [] (paren_open n newParseState)"
  by (rule aligned_glue) (simp_all add: paren_open_def WriteByte_def newParseState_def noq_def)

lemma aligned_paren_close: "aligned p [] (paren_close n newParseState)"
  by (rule aligned_glue) (simp_all add: paren_close_def WriteByte_def newParseState_def noq_def)

lemma aligned_sep_rel: "noq (GetDBOp p o' None) \<Longrightarrow> aligned p [] (sep_rel p o' i newParseState)"
  by (rule aligned_glue)
     (simp_all add: sep_rel_def WriteByte_def WriteString_def newParseState_def noq_def)

lemma aligned_3:
  assumes "aligned p [] a" and "aligned p xs r1" and "aligned p ys r2"
  shows "aligned p (xs @ ys) (append_state (append_state a r1) r2)"
  using aligned_append[OF aligned_append[OF assms(1,2)] assms(3)] by simp

lemma field_loop_aligned:
  "field_loop p f i ts newParseState = Inr r \<Longrightarrow> plain p (preds_field f (JObj ts)) \<Longrightarrow>
   aligned p (preds_field f (JObj ts)) r"
proof (induction ts arbitrary: i r)
  case Nil
  then show ?case by (simp add: preds_field_def aligned_new)
next
  case (Cons t ts)
  obtain n v where t: "t = (n, v)" by (cases t)
  from Cons.prems(1) have ok: "n \<noteq> []" "has_op f n"
    unfolding t field_loop_Cons_fun by (auto simp add: expect_def split: if_splits)
  then have "(case emit p f (tl n) v ''invalid datatype or format for field %q'' (sep_and i newParseState) of
                     Inl e \<Rightarrow> Inl e
                   | Inr ps2 \<Rightarrow> field_loop p f (i + 1) ts ps2) = Inr r"
    using Cons.prems(1) unfolding t field_loop_Cons_fun by (simp add: expect_def)
  from bind_decompose[OF framed_emit framed_field_loop this]
  obtain r1 r2 where r1: "emit p f (tl n) v ''invalid datatype or format for field %q'' newParseState = Inr r1"
    and r2: "field_loop p f (i + 1) ts newParseState = Inr r2"
    and r: "r = append_state (append_state (sep_and i newParseState) r1) r2"
    by blast
  from Cons.prems(2) have p1: "noq (pred_text p (f, tl n, v))" and p2: "plain p (preds_field f (JObj ts))"
    by (simp_all add: preds_field_def plain_def t)
  have "aligned p ([(f, tl n, v)] @ preds_field f (JObj ts)) r"
    unfolding r
    by (rule aligned_3[OF aligned_sep_and aligned_emit[OF r1 p1] Cons.IH[OF r2 p2]])
  then show ?case by (simp add: preds_field_def t)
qed

lemma field_aligned:
  assumes "field p f v newParseState = Inr r" and "plain p (preds_field f v)"
  shows "aligned p (preds_field f v) r"
proof (cases "is_scalar v")
  case True
  then have pf: "preds_field f v = [(f, EQ, v)]"
    by (cases v) (simp_all add: preds_field_def is_scalar_def)
  from True assms(1) have "emit p f EQ v ''invalid datatype for field %q'' newParseState = Inr r"
    by (simp add: field_scalar)
  from aligned_emit[OF this] assms(2) show ?thesis by (simp add: pf plain_def)
next
  case False
  then obtain terms where v: "v = JObj terms" by (cases v) (simp_all add: is_scalar_def)
  from assms(1) have "(case field_loop p f 0 terms (paren_open (length terms) newParseState) of
             Inl e \<Rightarrow> Inl e
           | Inr ps2 \<Rightarrow> Inr (paren_close (length terms) ps2)) = Inr r"
    unfolding v field_object_fun .
  then obtain ps2 where 1: "field_loop p f 0 terms (paren_open (length terms) newParseState) = Inr ps2"
    and r: "r = paren_close (length terms) ps2"
    by (auto split: sum.splits)
  from framed_Inr_D[OF framed_field_loop 1] obtain d where
    d: "field_loop p f 0 terms newParseState = Inr d"
    and ps2: "ps2 = append_state (paren_open (length terms) newParseState) d"
    by blast
  have "aligned p (preds_field f (JObj terms) @ [])
          (append_state (append_state (paren_open (length terms) newParseState) d)
             (paren_close (length terms) newParseState))"
    by (rule aligned_3[OF aligned_paren_open field_loop_aligned[OF d] aligned_paren_close])
       (use assms(2) v in simp)
  then show ?thesis using r ps2 paren_close_append[of "length terms" ps2] v by simp
qed

lemma framed_and_entry_any: "framed (and_entry p k v)"
  by (rule framed_and_entry) (rule framed_relOp_any)

lemma and_loop_aligned_list:
  assumes "\<And>k v r. (k, v) \<in> set kvs \<Longrightarrow> and_entry p k v newParseState = Inr r \<Longrightarrow>
             plain p (preds_entry p k v) \<Longrightarrow> aligned p (preds_entry p k v) r"
  shows "and_loop p i kvs newParseState = Inr r \<Longrightarrow> plain p (preds_and p kvs) \<Longrightarrow>
         aligned p (preds_and p kvs) r"
  using assms
proof (induction kvs arbitrary: i r)
  case Nil
  then show ?case by (simp add: aligned_new)
next
  case (Cons kv kvs)
  obtain k v where kv: "kv = (k, v)" by (cases kv)
  from Cons.prems(1) have "(case and_entry p k v (sep_and i newParseState) of
             Inl e \<Rightarrow> Inl e
           | Inr ps2 \<Rightarrow> and_loop p (i + 1) kvs ps2) = Inr r"
    unfolding kv and_loop_Cons_fun .
  from bind_decompose[OF framed_and_entry_any framed_and_loop this]
  obtain r1 r2 where r1: "and_entry p k v newParseState = Inr r1"
    and r2: "and_loop p (i + 1) kvs newParseState = Inr r2"
    and r: "r = append_state (append_state (sep_and i newParseState) r1) r2"
    by blast
  from Cons.prems(2) have p1: "plain p (preds_entry p k v)" and p2: "plain p (preds_and p kvs)"
    unfolding kv preds_and_Cons plain_append by simp_all
  have a1: "aligned p (preds_entry p k v) r1"
    by (rule Cons.prems(3)[OF _ r1 p1]) (simp add: kv)
  have a2: "aligned p (preds_and p kvs) r2"
    by (rule Cons.IH[OF r2 p2]) (use Cons.prems(3) in simp)
  show ?case unfolding kv preds_and_Cons r
    by (rule aligned_3[OF aligned_sep_and a1 a2])
qed

lemma relOp_loop_aligned_list:
  assumes "\<And>t r. t \<in> set ts \<Longrightarrow> relOp_term p o' t newParseState = Inr r \<Longrightarrow>
             plain p (preds_term p t) \<Longrightarrow> aligned p (preds_term p t) r"
    and "noq (GetDBOp p o' None)"
  shows "relOp_loop p o' i ts newParseState = Inr r \<Longrightarrow> plain p (preds_rel p ts) \<Longrightarrow>
         aligned p (preds_rel p ts) r"
  using assms(1)
proof (induction ts arbitrary: i r)
  case Nil
  then show ?case by (simp add: aligned_new)
next
  case (Cons t ts)
  from Cons.prems(1) have "(case relOp_term p o' t (sep_rel p o' i newParseState) of
             Inl e \<Rightarrow> Inl e
           | Inr ps2 \<Rightarrow> relOp_loop p o' (i + 1) ts ps2) = Inr r"
    unfolding relOp_loop_Cons_fun .
  from bind_decompose[OF framed_relOp_term_any framed_relOp_loop this]
  obtain r1 r2 where r1: "relOp_term p o' t newParseState = Inr r1"
    and r2: "relOp_loop p o' (i + 1) ts newParseState = Inr r2"
    and r: "r = append_state (append_state (sep_rel p o' i newParseState) r1) r2"
    by blast
  from Cons.prems(2) have p1: "plain p (preds_term p t)" and p2: "plain p (preds_rel p ts)"
    unfolding preds_rel_Cons plain_append by simp_all
  have a1: "aligned p (preds_term p t) r1"
    by (rule Cons.prems(3)[OF _ r1 p1]) simp
  have a2: "aligned p (preds_rel p ts) r2"
    by (rule Cons.IH[OF r2 p2]) (use Cons.prems(3) in simp)
  show ?case unfolding preds_rel_Cons r
    by (rule aligned_3[OF aligned_sep_rel[OF assms(2)] a1 a2])
qed

lemma relOp_aligned:
  assumes "\<And>r. relOp_loop p o' 0 ts newParseState = Inr r \<Longrightarrow> aligned p (preds_rel p ts) r"
    and "relOp p o' ts newParseState = Inr r"
  shows "aligned p (preds_rel p ts) r"
proof -
  from assms(2) have "(case relOp_loop p o' 0 ts (paren_open (length ts) newParseState) of
             Inl e \<Rightarrow> Inl e
           | Inr ps2 \<Rightarrow> Inr (paren_close (length ts) ps2)) = Inr r"
    unfolding relOp_fun .
  then obtain ps2 where 1: "relOp_loop p o' 0 ts (paren_open (length ts) newParseState) = Inr ps2"
    and r: "r = paren_close (length ts) ps2"
    by (auto split: sum.splits)
  from framed_Inr_D[OF framed_relOp_loop 1] obtain d where
    d: "relOp_loop p o' 0 ts newParseState = Inr d"
    and ps2: "ps2 = append_state (paren_open (length ts) newParseState) d"
    by blast
  have "aligned p (preds_rel p ts @ [])
          (append_state (append_state (paren_open (length ts) newParseState) d)
             (paren_close (length ts) newParseState))"
    by (rule aligned_3[OF aligned_paren_open assms(1)[OF d] aligned_paren_close])
  then show ?thesis using r ps2 paren_close_append[of "length ts" ps2] by simp
qed

lemma and_entry_aligned:
  assumes "\<And>ts o' r. v = JArr ts \<Longrightarrow> o' = OR \<or> o' = AND \<Longrightarrow>
             relOp p o' ts newParseState = Inr r \<Longrightarrow> plain p (preds_rel p ts) \<Longrightarrow>
             aligned p (preds_rel p ts) r"
    and "and_entry p k v newParseState = Inr r" and "plain p (preds_entry p k v)"
  shows "aligned p (preds_entry p k v) r"
proof (cases "k = op p OR \<or> k = op p AND")
  case True
  then obtain o' where o': "o' = OR \<or> o' = AND" and k: "k = op p o'" by blast
  from assms(2) True obtain ts where v: "v = JArr ts"
    by (cases v) (auto simp add: and_entry_def split: if_splits)
  have "and_entry p k v newParseState = relOp p o' ts newParseState"
    using o' k v op_AND_not_OR[of p] by (auto simp add: and_entry_def simp del: relOp.simps)
  with assms(2) have "relOp p o' ts newParseState = Inr r" by simp
  from assms(1)[OF v o' this] assms(3) True v show ?thesis
    by (simp add: preds_entry_def)
next
  case False
  with assms(2) obtain f where f: "schema p k = Some f" and r: "field p f v newParseState = Inr r"
    by (auto simp add: and_entry_def expect_def split: option.splits if_splits)
  from False f have pe: "preds_entry p k v = preds_field f v" by (simp add: preds_entry_def)
  from field_aligned[OF r] assms(3) show ?thesis by (simp add: pe)
qed

lemma relOp_term_aligned:
  assumes "\<And>mt r. t = JObj mt \<Longrightarrow> and_loop p 0 mt newParseState = Inr r \<Longrightarrow>
             plain p (preds_and p mt) \<Longrightarrow> aligned p (preds_and p mt) r"
    and "relOp_term p o' t newParseState = Inr r" and "plain p (preds_term p t)"
  shows "aligned p (preds_term p t) r"
proof -
  from assms(2) obtain mt where t: "t = JObj mt"
    by (cases t) (simp_all add: relOp_term_def)
  with assms(2) have "and_loop p 0 mt newParseState = Inr r"
    by (simp add: relOp_term_def and_map_def)
  from assms(1)[OF t this] assms(3) t show ?thesis by (simp add: preds_term_def)
qed

lemma aligned_json:
  assumes "noq (GetDBOp p OR None)" and "noq (GetDBOp p AND None)"
  shows "(\<forall>kvs. v = JObj kvs \<longrightarrow>
            (\<forall>i r. and_loop p i kvs newParseState = Inr r \<longrightarrow> plain p (preds_and p kvs) \<longrightarrow>
                   aligned p (preds_and p kvs) r)) \<and>
         (\<forall>ts. v = JArr ts \<longrightarrow>
            (\<forall>o' i r. o' = OR \<or> o' = AND \<longrightarrow> relOp_loop p o' i ts newParseState = Inr r \<longrightarrow>
                   plain p (preds_rel p ts) \<longrightarrow> aligned p (preds_rel p ts) r))"
proof (induction v)
  case (JArr ts)
  have "aligned p (preds_rel p ts) r"
    if o': "o' = OR \<or> o' = AND" and run: "relOp_loop p o' i ts newParseState = Inr r"
      and pl: "plain p (preds_rel p ts)" for o' i r
  proof (rule relOp_loop_aligned_list[OF _ _ run pl])
    show "noq (GetDBOp p o' None)" using o' assms by auto
  next
    fix t r1
    assume t: "t \<in> set ts" and r1: "relOp_term p o' t newParseState = Inr r1"
      and p1: "plain p (preds_term p t)"
    show "aligned p (preds_term p t) r1"
      by (rule relOp_term_aligned[OF _ r1 p1]) (use JArr[OF t] in simp)
  qed
  then show ?case by blast
next
  case (JObj kvs)
  have "aligned p (preds_and p kvs) r"
    if run: "and_loop p i kvs newParseState = Inr r" and pl: "plain p (preds_and p kvs)" for i r
  proof (rule and_loop_aligned_list[OF _ run pl])
    fix k v r1
    assume kv: "(k, v) \<in> set kvs" and r1: "and_entry p k v newParseState = Inr r1"
      and p1: "plain p (preds_entry p k v)"
    have ih: "\<forall>ts. v = JArr ts \<longrightarrow>
            (\<forall>o' i r. o' = OR \<or> o' = AND \<longrightarrow> relOp_loop p o' i ts newParseState = Inr r \<longrightarrow>
                   plain p (preds_rel p ts) \<longrightarrow> aligned p (preds_rel p ts) r)"
      using JObj[of "(k, v)" v] kv by simp
    show "aligned p (preds_entry p k v) r1"
    proof (rule and_entry_aligned[OF _ r1 p1])
      fix ts o' r2
      assume "v = JArr ts" "o' = OR \<or> o' = AND" "relOp p o' ts newParseState = Inr r2"
        "plain p (preds_rel p ts)"
      then show "aligned p (preds_rel p ts) r2"
        using ih by (intro relOp_aligned[of p o' ts r2]) auto
    qed
  qed
  then show ?case by blast
qed simp_all

lemma and_map_aligned:
  assumes "noq (GetDBOp p OR None)" and "noq (GetDBOp p AND None)"
    and "and_map p kvs newParseState = Inr r" and "plain p (preds_and p kvs)"
  shows "aligned p (preds_and p kvs) r"
  using aligned_json[OF assms(1,2), of "JObj kvs"] assms(3,4) by (simp add: and_map_def)

text \<open>
  Claim C1, as the code has it. When \<open>ParseQuery\<close> returns parameters and neither the
  renderings of \<^verbatim>\<open>or\<close> and \<^verbatim>\<open>and\<close> nor the column and operator texts of the predicates
  of the filter hold a \<^verbatim>\<open>?\<close>, the number of \<^verbatim>\<open>?\<close> in the filter expression is the
  number of arguments, the arguments are the converted values of the predicates of the
  document in order, and the text in front of the i-th \<^verbatim>\<open>?\<close> ends with the column and the
  operator of the i-th predicate.
\<close>

theorem placeholders_match_arguments:
  assumes "ParseQuery p q = Returned (Some pr) err"
    and "plain_for p (preds_and p (qFilter q))"
  shows "count_q (FilterExp pr) = length (FilterArgs pr) \<and>
         map pred_arg (preds_and p (qFilter q)) = map Some (FilterArgs pr) \<and>
         list_all2 (\<lambda>h x. suffix (pred_text p x) h) (holes (FilterExp pr))
           (preds_and p (qFilter q))"
proof -
  from assms(1) have "ParseQuery_body p q = Inr pr" by (auto dest: ParseQuery_cases)
  then obtain ps where run: "and_map p (qFilter q) newParseState = Inr ps"
    and e: "FilterExp pr = Buffer ps" and a: "FilterArgs pr = vals ps"
    by (auto dest: body_success)
  from assms(2) have "aligned p (preds_and p (qFilter q)) ps"
    by (intro and_map_aligned[OF _ _ run]) (simp_all add: plain_for_def)
  then have args: "map pred_arg (preds_and p (qFilter q)) = map Some (vals ps)"
    and al: "list_all2 (\<lambda>h x. suffix (pred_text p x) h) (holes (Buffer ps)) (preds_and p (qFilter q))"
    by (simp_all add: aligned_def)
  from al have "length (holes (Buffer ps)) = length (preds_and p (qFilter q))"
    by (rule list_all2_lengthD)
  moreover from args have "length (preds_and p (qFilter q)) = length (vals ps)"
    by (metis length_map)
  ultimately have "count_q (Buffer ps) = length (vals ps)"
    by (simp add: holes_def length_holes_acc)
  with args al e a show ?thesis by simp
qed

theorem placeholders_match_witness:
  "ParseQuery example_parser (empty_query\<lparr>qFilter := example_filter\<rparr>) =
     Returned (Some \<lparr>Limit = 25, Offset = 0, Select = [], Sort = [],
                      FilterExp = ''name = ? AND age = ? AND (age <> ? OR age <> ?)'',
                      FilterArgs = [AVal (JStr ''foo''), AInt 12, AInt 10, AInt 20]\<rparr>) None \<and>
   count_q ''name = ? AND age = ? AND (age <> ? OR age <> ?)'' = 4 \<and>
   map pred_arg (preds_and example_parser example_filter) =
     [Some (AVal (JStr ''foo'')), Some (AInt 12), Some (AInt 10), Some (AInt 20)] \<and>
   list_all2 (\<lambda>h x. suffix (pred_text example_parser x) h)
     [''name = '', '' AND age = '', '' AND (age <> '', '' OR age <> '']
     (preds_and example_parser example_filter)"
proof -
  let ?q = "empty_query\<lparr>qFilter := example_filter\<rparr>"
  let ?pr = "\<lparr>Limit = 25, Offset = 0, Select = [], Sort = [],
                      FilterExp = ''name = ? AND age = ? AND (age <> ? OR age <> ?)'',
                      FilterArgs = [AVal (JStr ''foo''), AInt 12, AInt 10, AInt 20]\<rparr>"
  have run: "ParseQuery example_parser ?q = Returned (Some ?pr) None"
    by code_simp
  have pl: "plain_for example_parser (preds_and example_parser (qFilter ?q))"
    by code_simp
  have h: "holes ''name = ? AND age = ? AND (age <> ? OR age <> ?)'' =
           [''name = '', '' AND age = '', '' AND (age <> '', '' OR age <> '']"
    by code_simp
  from placeholders_match_arguments[OF run pl] h run show ?thesis
    by (simp add: empty_query_def)
qed

text \<open>
  Claim C1 as stated fails when the rendering of an operator holds a \<^verbatim>\<open>?\<close>: with the
  operator \<^verbatim>\<open>exists\<close> rendered as \<^verbatim>\<open>?|\<close>, the expression of one predicate has two
  \<^verbatim>\<open>?\<close> and one argument.
\<close>

theorem placeholder_in_operator_counterexample:
  "ParseQuery exists_parser
     (empty_query\<lparr>qFilter := [(''alias_map'', JObj [(''$exists'', JStr ''str'')])]\<rparr>) =
     Returned (Some \<lparr>Limit = 25, Offset = 0, Select = [], Sort = [],
                      FilterExp = ''alias_map ?| ?'',
                      FilterArgs = [AVal (JStr ''str'')]\<rparr>) None \<and>
   count_q ''alias_map ?| ?'' = 2 \<and> length [AVal (JStr ''str'')] = 1"
  by code_simp

section \<open>Rejections of the filter walk\<close>

lemma and_entry_unknown:
  "k \<noteq> op p OR \<Longrightarrow> k \<noteq> op p AND \<Longrightarrow> schema p k = None \<Longrightarrow>
   and_entry p k v ps = Inl (Perr (ParseError ''unrecognized key %q for filtering'' [FStr k]))"
  by (simp add: and_entry_def)

lemma and_entry_not_filterable:
  "k \<noteq> op p OR \<Longrightarrow> k \<noteq> op p AND \<Longrightarrow> schema p k = Some f \<Longrightarrow> \<not> Filterable (meta f) \<Longrightarrow>
   and_entry p k v ps = Inl (Perr (ParseError ''field %q is not filterable'' [FStr k]))"
  by (simp add: and_entry_def expect_def)

lemma and_entry_not_array:
  "(\<And>ts. v \<noteq> JArr ts) \<Longrightarrow>
   and_entry p (op p OR) v ps = Inl (Perr (ParseError ''$or must be type array'' [])) \<and>
   and_entry p (op p AND) v ps = Inl (Perr (ParseError ''$and must be type array'' []))"
  using op_AND_not_OR[of p] by (cases v) (auto simp add: and_entry_def simp del: relOp.simps)

lemma field_unknown_op:
  "n \<noteq> [] \<Longrightarrow> \<not> has_op f n \<Longrightarrow>
   field p f (JObj ((n, w) # ops)) ps =
     Inl (Perr (ParseError ''can not apply op %q on field %q'' [FStr n, FStr (Name (meta f))]))"
  by (simp add: field_def Let_def expect_def)

text \<open>
  The rejections of the filter walk. With a valid offset and limit, the first entry of the
  filter makes \<open>ParseQuery\<close> return an error and no parameters when its key is neither a
  marker nor a column of the schema, when its field is not filterable, when a marker comes
  with a value that is not an array, and when the first operator of its operator object
  has a name that is not empty and is not among the operators of the field.
\<close>

theorem filter_rejections:
  assumes "0 \<le> qOffset q" and "qLimit q = 0 \<or> 0 < qLimit q \<and> qLimit q \<le> LimitMaxValue p"
    and "qFilter q = (k, v) # rest'"
  shows "(k \<noteq> op p OR \<and> k \<noteq> op p AND \<and> schema p k = None \<longrightarrow>
            ParseQuery p q =
              Returned None (Some (ParseError ''unrecognized key %q for filtering'' [FStr k]))) \<and>
         (k \<noteq> op p OR \<and> k \<noteq> op p AND \<and> schema p k = Some f \<and> \<not> Filterable (meta f) \<longrightarrow>
            ParseQuery p q =
              Returned None (Some (ParseError ''field %q is not filterable'' [FStr k]))) \<and>
         (k = op p OR \<and> (\<forall>ts. v \<noteq> JArr ts) \<longrightarrow>
            ParseQuery p q = Returned None (Some (ParseError ''$or must be type array'' []))) \<and>
         (k = op p AND \<and> (\<forall>ts. v \<noteq> JArr ts) \<longrightarrow>
            ParseQuery p q = Returned None (Some (ParseError ''$and must be type array'' []))) \<and>
         (k \<noteq> op p OR \<and> k \<noteq> op p AND \<and> schema p k = Some f \<and> Filterable (meta f) \<and>
          v = JObj ((n, w) # ops) \<and> n \<noteq> [] \<and> \<not> has_op f n \<longrightarrow>
            ParseQuery p q =
              Returned None
                (Some (ParseError ''can not apply op %q on field %q''
                         [FStr n, FStr (Name (meta f))])))"
proof -
  have key: "and_entry p k v newParseState = Inl (Perr e) \<Longrightarrow>
             ParseQuery p q = Returned None (Some e)" for e
  proof -
    assume "and_entry p k v newParseState = Inl (Perr e)"
    then have "and_map p (qFilter q) newParseState = Inl (Perr e)"
      by (simp add: assms(3) and_map_Cons)
    from ParseQuery_filter_error[OF assms(1,2) this] show ?thesis
      by (rule ParseQuery_body_error)
  qed
  show ?thesis
    using and_entry_not_array[of v p newParseState]
    by (auto intro!: key simp add: and_entry_unknown and_entry_not_filterable
          and_entry_field field_unknown_op)
qed

theorem filter_rejections_witness:
  "ParseQuery example_parser (empty_query\<lparr>qFilter := [(''bogus'', JNum 1)]\<rparr>) =
     Returned None (Some (ParseError ''unrecognized key %q for filtering'' [FStr ''bogus''])) \<and>
   ParseQuery example_parser (empty_query\<lparr>qFilter := [(''$or'', JStr ''x'')]\<rparr>) =
     Returned None (Some (ParseError ''$or must be type array'' [])) \<and>
   ParseQuery example_parser (empty_query\<lparr>qFilter := [(''age'', JObj [(''$like'', JNum 1)])]\<rparr>) =
     Returned None (Some (ParseError ''can not apply op %q on field %q'' [FStr ''$like'', FStr ''age'']))"
proof -
  have k1: "''bogus'' \<noteq> op example_parser OR \<and> ''bogus'' \<noteq> op example_parser AND"
    by code_simp
  have n1: "(case schema example_parser ''bogus'' of None \<Rightarrow> True | Some f \<Rightarrow> False)"
    by code_simp
  then have s1: "schema example_parser ''bogus'' = None" by (auto split: option.splits)
  have 1: "ParseQuery example_parser (empty_query\<lparr>qFilter := [(''bogus'', JNum 1)]\<rparr>) =
     Returned None (Some (ParseError ''unrecognized key %q for filtering'' [FStr ''bogus'']))"
    using filter_rejections[where p=example_parser and k="''bogus''" and v="JNum 1" and rest'="[]"
        and q="empty_query\<lparr>qFilter := [(''bogus'', JNum 1)]\<rparr>"] k1 s1
    by (simp add: empty_query_def)
  have k2: "''$or'' = op example_parser OR" by code_simp
  have 2: "ParseQuery example_parser (empty_query\<lparr>qFilter := [(''$or'', JStr ''x'')]\<rparr>) =
     Returned None (Some (ParseError ''$or must be type array'' []))"
    using filter_rejections[where p=example_parser and k="''$or''" and v="JStr ''x''" and rest'="[]"
        and q="empty_query\<lparr>qFilter := [(''$or'', JStr ''x'')]\<rparr>"] k2
    by (simp add: empty_query_def)
  have a: "(case schema example_parser ''age'' of
              Some f \<Rightarrow> Filterable (meta f) \<and> \<not> has_op f ''$like'' \<and> Name (meta f) = ''age''
            | None \<Rightarrow> False)"
    by code_simp
  then obtain f where f: "schema example_parser ''age'' = Some f" "Filterable (meta f)"
      "\<not> has_op f ''$like''" "Name (meta f) = ''age''"
    by (auto split: option.splits)
  have k3: "''age'' \<noteq> op example_parser OR \<and> ''age'' \<noteq> op example_parser AND"
    by code_simp
  have 3: "ParseQuery example_parser (empty_query\<lparr>qFilter := [(''age'', JObj [(''$like'', JNum 1)])]\<rparr>) =
     Returned None (Some (ParseError ''can not apply op %q on field %q'' [FStr ''$like'', FStr ''age'']))"
    using filter_rejections[where p=example_parser and k="''age''"
        and v="JObj [(''$like'', JNum 1)]" and rest'="[]" and f=f and n="''$like''"
        and w="JNum 1" and ops="[]"
        and q="empty_query\<lparr>qFilter := [(''age'', JObj [(''$like'', JNum 1)])]\<rparr>"] k3 f
    by (simp add: empty_query_def)
  from 1 2 3 show ?thesis by simp
qed

text \<open>An empty filter document compiles to the empty text and no values.\<close>

theorem empty_filter_compiles_to_nothing:
  "and_map p [] newParseState = Inr newParseState \<and>
   Buffer newParseState = [] \<and> vals newParseState = []"
  by (simp add: and_map_def newParseState_def)

section \<open>The empty operator name\<close>

lemma and_loop_append:
  "and_loop p i xs ps = Inr ps1 \<Longrightarrow>
   and_loop p i (xs @ ys) ps = and_loop p (i + length xs) ys ps1"
proof (induction xs arbitrary: i ps)
  case Nil
  then show ?case by simp
next
  case (Cons kv xs)
  obtain k v where kv: "kv = (k, v)" by (cases kv)
  show ?case
  proof (cases "and_entry p k v (sep_and i ps)")
    case (Inl e')
    with Cons.prems kv show ?thesis by (simp add: and_loop_Cons del: and_loop.simps)
  next
    case (Inr ps2)
    with Cons.prems kv have "and_loop p (i + 1) xs ps2 = Inr ps1"
      by (simp add: and_loop_Cons del: and_loop.simps)
    from Cons.IH[OF this] Inr kv show ?thesis
      by (simp add: and_loop_Cons del: and_loop.simps)
  qed
qed

lemma field_loop_succeeds_anywhere:
  assumes "field_loop p f i ts newParseState = Inr r"
  shows "field_loop p f i ts ps = Inr (append_state ps r)"
  using framedD[OF framed_field_loop, of p f i ts ps] assms by simp

lemma field_reaches_empty_name:
  assumes "field_loop p f 0 pre newParseState = Inr r"
  shows "field p f (JObj (pre @ ('''', v) # post)) ps = Inl (Rerr SliceBoundsOutOfRange)"
  using field_loop_succeeds_anywhere[OF assms]
  by (simp add: field_def Let_def field_loop_empty_name)

lemma example_age_filterable:
  "(case schema example_parser ''age'' of Some f \<Rightarrow> Filterable (meta f) | None \<Rightarrow> False)"
  by code_simp

text \<open>
  Claim C10, as the code has it. Let the offset and the limit be valid, let the entries of
  the filter that are visited before the entry of the filterable field \<open>f\<close> compile, and let
  the value of \<open>f\<close> be an operator object in which the entries visited before the empty
  operator name compile. Then \<open>ParseQuery\<close> returns no \<^verbatim>\<open>ParseError\<close>: slicing the name
  panics, and the panic leaves the call. Wherever the empty name stands in an operator
  object, the loop over the object ends in that panic unless an entry before it has
  already failed, and then it ends in that failure.
\<close>

theorem empty_operator_name_panics:
  assumes "schema p k = Some f" and "Filterable (meta f)"
    and "k \<noteq> op p OR" and "k \<noteq> op p AND"
    and "0 \<le> qOffset q" and "qLimit q = 0 \<or> 0 < qLimit q \<and> qLimit q \<le> LimitMaxValue p"
    and "qFilter q = before @ (k, JObj (pre @ ('''', v) # post)) # rest'"
    and "and_map p before newParseState = Inr r1"
    and "field_loop p f 0 pre newParseState = Inr r2"
  shows "ParseQuery p q = Panicked SliceBoundsOutOfRange \<and>
         field_loop p f i (ops @ ('''', w) # ops') ps =
           (case field_loop p f i ops ps of
              Inl e \<Rightarrow> Inl e
            | Inr ps' \<Rightarrow> Inl (Rerr SliceBoundsOutOfRange))"
proof -
  have "and_map p (qFilter q) newParseState =
        and_loop p (0 + length before) ((k, JObj (pre @ ('''', v) # post)) # rest') r1"
    using assms(8) unfolding assms(7) and_map_def by (rule and_loop_append)
  also have "\<dots> = Inl (Rerr SliceBoundsOutOfRange)"
    using assms(1-4)
    by (simp add: and_loop_Cons and_entry_field field_reaches_empty_name[OF assms(9)]
        del: and_loop.simps)
  finally have "and_map p (qFilter q) newParseState = Inl (Rerr SliceBoundsOutOfRange)" .
  with assms(5,6) have "ParseQuery_body p q = Inl (Rerr SliceBoundsOutOfRange)"
    by (rule ParseQuery_filter_error)
  then show ?thesis by (simp add: ParseQuery_def field_loop_empty_name)
qed

text \<open>
  The filter \<^verbatim>\<open>{"name": "foo", "age": {"$gt": 1, "": 2}}\<close>, visited in this order: the
  entries before the empty name compile, and the panic leaves the call.
\<close>

theorem empty_operator_name_witness:
  "ParseQuery example_parser
     (empty_query\<lparr>qFilter := [(''name'', JStr ''foo''),
                              (''age'', JObj [(''$gt'', JNum 1), ('''', JNum 2)])]\<rparr>) =
     Panicked SliceBoundsOutOfRange"
proof -
  let ?q = "empty_query\<lparr>qFilter := [(''name'', JStr ''foo''),
                              (''age'', JObj [(''$gt'', JNum 1), ('''', JNum 2)])]\<rparr>"
  obtain f where f: "schema example_parser ''age'' = Some f" and fl: "Filterable (meta f)"
    using example_age_filterable by (auto split: option.splits)
  have k: "''age'' \<noteq> op example_parser OR" "''age'' \<noteq> op example_parser AND"
    by code_simp+
  have q: "0 \<le> qOffset ?q"
      "qLimit ?q = 0 \<or> 0 < qLimit ?q \<and> qLimit ?q \<le> LimitMaxValue example_parser"
      "qFilter ?q = [(''name'', JStr ''foo'')] @
         (''age'', JObj ([(''$gt'', JNum 1)] @ ('''', JNum 2) # [])) # []"
    by (simp_all add: empty_query_def)
  have b: "and_map example_parser [(''name'', JStr ''foo'')] newParseState =
           Inr \<lparr>Buffer = ''name = ?'', vals = [AVal (JStr ''foo'')]\<rparr>"
    by code_simp
  have "(case schema example_parser ''age'' of
           Some f \<Rightarrow> field_loop example_parser f 0 [(''$gt'', JNum 1)] newParseState =
                      Inr \<lparr>Buffer = ''age > ?'', vals = [AInt 1]\<rparr>
         | None \<Rightarrow> False)"
    by code_simp
  with f have l: "field_loop example_parser f 0 [(''$gt'', JNum 1)] newParseState =
                  Inr \<lparr>Buffer = ''age > ?'', vals = [AInt 1]\<rparr>"
    by simp
  from empty_operator_name_panics[OF f fl k q b l] show ?thesis by simp
qed

text \<open>
  Claim C10 as stated, for every filter in which the value of \<open>f\<close> is an operator object
  with the empty name among its keys, fails when something else fails first. In the
  filter \<^verbatim>\<open>{"age": {"$like": 1, "": 2}}\<close>, visited in this order, the operator \<^verbatim>\<open>$like\<close> is
  not one of the field \<^verbatim>\<open>age\<close>; and with the offset -1 the filter is never visited. In both
  cases \<open>ParseQuery\<close> returns a \<^verbatim>\<open>ParseError\<close>.
\<close>

theorem empty_operator_name_counterexample:
  "ParseQuery example_parser
     (empty_query\<lparr>qFilter := [(''age'', JObj [(''$like'', JNum 1), ('''', JNum 2)])]\<rparr>) =
     Returned None
       (Some (ParseError ''can not apply op %q on field %q'' [FStr ''$like'', FStr ''age''])) \<and>
   ParseQuery example_parser
     (empty_query\<lparr>qOffset := - 1, qFilter := [(''age'', JObj [('''', JNum 2)])]\<rparr>) =
     Returned None
       (Some (ParseError ''offset must be greater than or equal to 0'' []))"
proof -
  have 1: "ParseQuery example_parser
     (empty_query\<lparr>qFilter := [(''age'', JObj [(''$like'', JNum 1), ('''', JNum 2)])]\<rparr>) =
     Returned None
       (Some (ParseError ''can not apply op %q on field %q'' [FStr ''$like'', FStr ''age'']))"
    by code_simp
  have 2: "ParseQuery example_parser
     (empty_query\<lparr>qOffset := - 1, qFilter := [(''age'', JObj [('''', JNum 2)])]\<rparr>) =
     Returned None
       (Some (ParseError ''offset must be greater than or equal to 0'' []))"
    by code_simp
  from 1 2 show ?thesis by simp
qed

end
